theory Spec2Isabelle
  imports Main "HOL-Library.Word"
begin

section \<open>Results of a call\<close>

text \<open>
  The C++ type \<^verbatim>\<open>int\<close> is a 32-bit two's complement integer: a word read with \<open>sint\<close>
  and compared with \<open><s\<close>; \<open>+\<close> on the word wraps.
\<close>

type_synonym cint = "32 word"

text \<open>
  \<open>Exception\<close> is \<^verbatim>\<open>Detail::Exception\<close>, the only thing the library throws (the spec's
  IllegalState). \<open>Undefined\<close> marks the places where the C++ has no defined behaviour and
  throws nothing: reading through a cursor outside the array it points into, and
  \<^verbatim>\<open>TypedStorage::get\<close> on a slot in which no value has been constructed.
\<close>

datatype error = Exception | Undefined

text \<open>
  A call either does not return (\<open>None\<close>, a loop that never ends), throws or is undefined
  (\<open>Some (Inl e)\<close>), or returns (\<open>Some (Inr r)\<close>).
\<close>

type_synonym 'r result = "(error + 'r) option"

section \<open>The iterator protocol\<close>

text \<open>
  Every stage is a class with the three member functions \<^verbatim>\<open>hasNext\<close>,
  \<^verbatim>\<open>estimateRemaining\<close> and \<^verbatim>\<open>next\<close>; the stages are composed through
  template parameters. A stage over objects of type \<open>'s\<close> with elements \<open>'a\<close> is the
  record of its member functions. None of them is \<^verbatim>\<open>const\<close>, so each takes the object
  and returns it again. \<open>'w\<close> is the state outside the chain that the function given to
  \<^verbatim>\<open>tap\<close> acts on; \<^verbatim>\<open>next\<close> is the only member that can reach it.
\<close>

record ('s, 'a, 'w) Iterator =
  hasNext :: "'s \<Rightarrow> bool \<times> 's"
  estimateRemaining :: "'s \<Rightarrow> cint \<times> 's"
  "next" :: "'s \<Rightarrow> 'w \<Rightarrow> ('a \<times> 's \<times> 'w) result"

text \<open>
  \<^verbatim>\<open>Stream<TIt>\<close> has the one member \<^verbatim>\<open>iterator\<close>; \<^verbatim>\<open>getIterator\<close> returns it.
\<close>

datatype 's Stream = Stream (iterator: 's)

section \<open>Source iterators\<close>

text \<open>
  \<^verbatim>\<open>StreamIterator<TIt>\<close> holds two cursors into a sequence owned by the caller.
  \<open>array\<close> is that whole sequence (for \<^verbatim>\<open>of(T* begin, T* end)\<close> the array the pointers
  point into), \<open>current\<close> and \<open>end'\<close> are positions in it. \<^verbatim>\<open>next\<close> moves the element
  out of \<^verbatim>\<open>*current\<close>; the model reads it and keeps \<open>array\<close> as it is, which is what the
  move does for an element type such as \<^verbatim>\<open>int\<close>. It holds the sequence by value in every
  iterator object, where the code's iterator copies point into the caller's one
  container. What one chain yields in one pass does not depend on either; what a second
  pass over the same container sees, for an element type that a move empties, is outside
  this model, and no property below speaks of it.
\<close>

record 'a StreamIterator_state =
  array :: "'a list"
  current :: nat
  end' :: nat

definition StreamIterator_hasNext :: "'a StreamIterator_state \<Rightarrow> bool \<times> 'a StreamIterator_state" where
  "StreamIterator_hasNext this = (current this \<noteq> end' this, this)"

definition StreamIterator_estimateRemaining :: "'a StreamIterator_state \<Rightarrow> cint \<times> 'a StreamIterator_state" where
  "StreamIterator_estimateRemaining this = (word_of_int (int (end' this) - int (current this)), this)"

definition StreamIterator_next :: "'a StreamIterator_state \<Rightarrow> 'w \<Rightarrow> ('a \<times> 'a StreamIterator_state \<times> 'w) result" where
  "StreamIterator_next this w =
     (if current this < length (array this)
      then let x = array this ! current this
           in Some (Inr (x, this\<lparr>current := current this + 1\<rparr>, w))
      else Some (Inl Undefined))"

definition StreamIterator :: "('a StreamIterator_state, 'a, 'w) Iterator" where
  "StreamIterator =
     \<lparr>hasNext = StreamIterator_hasNext,
      estimateRemaining = StreamIterator_estimateRemaining,
      next = StreamIterator_next\<rparr>"

definition EmptyIterator_hasNext :: "unit \<Rightarrow> bool \<times> unit" where
  "EmptyIterator_hasNext this = (False, this)"

definition EmptyIterator_estimateRemaining :: "unit \<Rightarrow> cint \<times> unit" where
  "EmptyIterator_estimateRemaining this = (0, this)"

definition EmptyIterator_next :: "unit \<Rightarrow> 'w \<Rightarrow> ('a \<times> unit \<times> 'w) result" where
  "EmptyIterator_next this w = Some (Inl Exception)"

definition EmptyIterator :: "(unit, 'a, 'w) Iterator" where
  "EmptyIterator =
     \<lparr>hasNext = EmptyIterator_hasNext,
      estimateRemaining = EmptyIterator_estimateRemaining,
      next = EmptyIterator_next\<rparr>"

section \<open>Limit\<close>

record 's LimitIterator_state =
  li_it :: 's
  li_size :: cint
  li_idx :: cint

definition LimitIterator_init :: "'s \<Rightarrow> cint \<Rightarrow> 's LimitIterator_state" where
  "LimitIterator_init i s = \<lparr>li_it = i, li_size = s, li_idx = 0\<rparr>"

definition LimitIterator_hasNext ::
  "('s, 'a, 'w) Iterator \<Rightarrow> 's LimitIterator_state \<Rightarrow> bool \<times> 's LimitIterator_state" where
  "LimitIterator_hasNext up this =
     (if li_idx this <s li_size this
      then (case hasNext up (li_it this) of (b, it') \<Rightarrow> (b, this\<lparr>li_it := it'\<rparr>))
      else (False, this))"

definition LimitIterator_estimateRemaining ::
  "('s, 'a, 'w) Iterator \<Rightarrow> 's LimitIterator_state \<Rightarrow> cint \<times> 's LimitIterator_state" where
  "LimitIterator_estimateRemaining up this =
     (case estimateRemaining up (li_it this) of (rem, it') \<Rightarrow>
        (if rem <s li_size this - li_idx this then rem else li_size this - li_idx this,
         this\<lparr>li_it := it'\<rparr>))"

definition LimitIterator_next ::
  "('s, 'a, 'w) Iterator \<Rightarrow> 's LimitIterator_state \<Rightarrow> 'w \<Rightarrow> ('a \<times> 's LimitIterator_state \<times> 'w) result" where
  "LimitIterator_next up this w =
     (let this1 = this\<lparr>li_idx := li_idx this + 1\<rparr>
      in case next up (li_it this1) w of
           None \<Rightarrow> None
         | Some (Inl e) \<Rightarrow> Some (Inl e)
         | Some (Inr (x, it', w')) \<Rightarrow> Some (Inr (x, this1\<lparr>li_it := it'\<rparr>, w')))"

definition LimitIterator :: "('s, 'a, 'w) Iterator \<Rightarrow> ('s LimitIterator_state, 'a, 'w) Iterator" where
  "LimitIterator up =
     \<lparr>hasNext = LimitIterator_hasNext up,
      estimateRemaining = LimitIterator_estimateRemaining up,
      next = LimitIterator_next up\<rparr>"

section \<open>Map and Tap\<close>

text \<open>
  The functions given to \<^verbatim>\<open>map\<close>, \<^verbatim>\<open>filter\<close> and \<^verbatim>\<open>flatMap\<close> compute a value from
  their argument and do nothing else. The one given to \<^verbatim>\<open>tap\<close> is called for its effect.
  \<^verbatim>\<open>TapIterator::next\<close> calls it on its local variable \<^verbatim>\<open>x\<close> and returns \<^verbatim>\<open>x\<close>
  afterwards, so a function that takes its parameter by reference can assign to \<^verbatim>\<open>x\<close>:
  \<open>ti_lambda this x w\<close> is the pair of the value the call leaves in \<^verbatim>\<open>x\<close> and the
  outside state after it. What the function returns is dropped. A function that takes
  the element by value or by reference to const leaves \<^verbatim>\<open>x\<close> as it was.
\<close>

record ('s, 'f) MapIterator_state =
  mi_it :: 's
  mi_lambda :: 'f

definition MapIterator_hasNext ::
  "('s, 'a, 'w) Iterator \<Rightarrow> ('s, 'f) MapIterator_state \<Rightarrow> bool \<times> ('s, 'f) MapIterator_state" where
  "MapIterator_hasNext up this =
     (case hasNext up (mi_it this) of (b, it') \<Rightarrow> (b, this\<lparr>mi_it := it'\<rparr>))"

definition MapIterator_estimateRemaining ::
  "('s, 'a, 'w) Iterator \<Rightarrow> ('s, 'f) MapIterator_state \<Rightarrow> cint \<times> ('s, 'f) MapIterator_state" where
  "MapIterator_estimateRemaining up this =
     (case estimateRemaining up (mi_it this) of (n, it') \<Rightarrow> (n, this\<lparr>mi_it := it'\<rparr>))"

definition MapIterator_next ::
  "('s, 'a, 'w) Iterator \<Rightarrow> ('s, 'a \<Rightarrow> 'b) MapIterator_state \<Rightarrow> 'w
     \<Rightarrow> ('b \<times> ('s, 'a \<Rightarrow> 'b) MapIterator_state \<times> 'w) result" where
  "MapIterator_next up this w =
     (case next up (mi_it this) w of
        None \<Rightarrow> None
      | Some (Inl e) \<Rightarrow> Some (Inl e)
      | Some (Inr (x, it', w')) \<Rightarrow> Some (Inr (mi_lambda this x, this\<lparr>mi_it := it'\<rparr>, w')))"

definition MapIterator ::
  "('s, 'a, 'w) Iterator \<Rightarrow> (('s, 'a \<Rightarrow> 'b) MapIterator_state, 'b, 'w) Iterator" where
  "MapIterator up =
     \<lparr>hasNext = MapIterator_hasNext up,
      estimateRemaining = MapIterator_estimateRemaining up,
      next = MapIterator_next up\<rparr>"

record ('s, 'f) TapIterator_state =
  ti_it :: 's
  ti_lambda :: 'f

definition TapIterator_hasNext ::
  "('s, 'a, 'w) Iterator \<Rightarrow> ('s, 'f) TapIterator_state \<Rightarrow> bool \<times> ('s, 'f) TapIterator_state" where
  "TapIterator_hasNext up this =
     (case hasNext up (ti_it this) of (b, it') \<Rightarrow> (b, this\<lparr>ti_it := it'\<rparr>))"

definition TapIterator_estimateRemaining ::
  "('s, 'a, 'w) Iterator \<Rightarrow> ('s, 'f) TapIterator_state \<Rightarrow> cint \<times> ('s, 'f) TapIterator_state" where
  "TapIterator_estimateRemaining up this =
     (case estimateRemaining up (ti_it this) of (n, it') \<Rightarrow> (n, this\<lparr>ti_it := it'\<rparr>))"

definition TapIterator_next ::
  "('s, 'a, 'w) Iterator \<Rightarrow> ('s, 'a \<Rightarrow> 'w \<Rightarrow> 'a \<times> 'w) TapIterator_state \<Rightarrow> 'w
     \<Rightarrow> ('a \<times> ('s, 'a \<Rightarrow> 'w \<Rightarrow> 'a \<times> 'w) TapIterator_state \<times> 'w) result" where
  "TapIterator_next up this w =
     (case next up (ti_it this) w of
        None \<Rightarrow> None
      | Some (Inl e) \<Rightarrow> Some (Inl e)
      | Some (Inr (x, it', w')) \<Rightarrow>
          (case ti_lambda this x w' of
             (x', w'') \<Rightarrow> Some (Inr (x', this\<lparr>ti_it := it'\<rparr>, w''))))"

definition TapIterator ::
  "('s, 'a, 'w) Iterator \<Rightarrow> (('s, 'a \<Rightarrow> 'w \<Rightarrow> 'a \<times> 'w) TapIterator_state, 'a, 'w) Iterator" where
  "TapIterator up =
     \<lparr>hasNext = TapIterator_hasNext up,
      estimateRemaining = TapIterator_estimateRemaining up,
      next = TapIterator_next up\<rparr>"

section \<open>Filter\<close>

text \<open>
  \<^verbatim>\<open>TypedStorage<T>\<close> is a slot with explicit lifetime: \<open>None\<close> while no value has been
  constructed in it. \<^verbatim>\<open>get\<close> on such a slot has no defined behaviour.
\<close>

type_synonym 'a TypedStorage = "'a option"

definition TypedStorage_construct :: "'a \<Rightarrow> 'a TypedStorage \<Rightarrow> 'a TypedStorage" where
  "TypedStorage_construct x data = Some x"

definition TypedStorage_get :: "'a TypedStorage \<Rightarrow> error + 'a" where
  "TypedStorage_get data = (case data of None \<Rightarrow> Inl Undefined | Some v \<Rightarrow> Inr v)"

record ('s, 'a) FilterIterator_state =
  fi_it :: 's
  fi_lambda :: "'a \<Rightarrow> bool"
  fi_hasValue :: bool
  fi_hasInit :: bool
  fi_currentValue :: "'a TypedStorage"

text \<open>The \<^verbatim>\<open>while\<close> loop of \<^verbatim>\<open>FilterIterator::moveNext\<close>.\<close>

partial_function (option) FilterIterator_moveNext_loop ::
  "('s, 'a, 'w) Iterator \<Rightarrow> ('s, 'a) FilterIterator_state \<Rightarrow> 'w
     \<Rightarrow> (('s, 'a) FilterIterator_state \<times> 'w) result" where
  "FilterIterator_moveNext_loop up this w =
     (case hasNext up (fi_it this) of (b, it1) \<Rightarrow>
        if b
        then (case next up it1 w of
                None \<Rightarrow> None
              | Some (Inl e) \<Rightarrow> Some (Inl e)
              | Some (Inr (x, it2, w2)) \<Rightarrow>
                  if fi_lambda this x
                  then (if \<not> fi_hasInit this
                        then Some (Inr (this\<lparr>fi_it := it2,
                                             fi_currentValue := TypedStorage_construct x (fi_currentValue this),
                                             fi_hasInit := True, fi_hasValue := True\<rparr>, w2))
                        else (case TypedStorage_get (fi_currentValue this) of
                                Inl e \<Rightarrow> Some (Inl e)
                              | Inr old \<Rightarrow>
                                  Some (Inr (this\<lparr>fi_it := it2, fi_currentValue := Some x,
                                                  fi_hasValue := True\<rparr>, w2))))
                  else FilterIterator_moveNext_loop up (this\<lparr>fi_it := it2\<rparr>) w2)
        else Some (Inr (this\<lparr>fi_it := it1\<rparr>, w)))"

definition FilterIterator_moveNext ::
  "('s, 'a, 'w) Iterator \<Rightarrow> ('s, 'a) FilterIterator_state \<Rightarrow> 'w
     \<Rightarrow> (('s, 'a) FilterIterator_state \<times> 'w) result" where
  "FilterIterator_moveNext up this w =
     FilterIterator_moveNext_loop up (this\<lparr>fi_hasValue := False\<rparr>) w"

text \<open>The constructor \<^verbatim>\<open>FilterIterator(TStreamIt i, TLam l)\<close>, which calls \<^verbatim>\<open>moveNext\<close>.\<close>

definition FilterIterator_init ::
  "('s, 'a, 'w) Iterator \<Rightarrow> 's \<Rightarrow> ('a \<Rightarrow> bool) \<Rightarrow> 'w \<Rightarrow> (('s, 'a) FilterIterator_state \<times> 'w) result" where
  "FilterIterator_init up i l w =
     FilterIterator_moveNext up
       \<lparr>fi_it = i, fi_lambda = l, fi_hasValue = False, fi_hasInit = False, fi_currentValue = None\<rparr> w"

definition FilterIterator_estimateRemaining ::
  "('s, 'a, 'w) Iterator \<Rightarrow> ('s, 'a) FilterIterator_state \<Rightarrow> cint \<times> ('s, 'a) FilterIterator_state" where
  "FilterIterator_estimateRemaining up this =
     (case estimateRemaining up (fi_it this) of (n, it') \<Rightarrow> (n, this\<lparr>fi_it := it'\<rparr>))"

definition FilterIterator_hasNext ::
  "('s, 'a) FilterIterator_state \<Rightarrow> bool \<times> ('s, 'a) FilterIterator_state" where
  "FilterIterator_hasNext this = (fi_hasValue this, this)"

definition FilterIterator_next ::
  "('s, 'a, 'w) Iterator \<Rightarrow> ('s, 'a) FilterIterator_state \<Rightarrow> 'w
     \<Rightarrow> ('a \<times> ('s, 'a) FilterIterator_state \<times> 'w) result" where
  "FilterIterator_next up this w =
     (case TypedStorage_get (fi_currentValue this) of
        Inl e \<Rightarrow> Some (Inl e)
      | Inr x \<Rightarrow>
          (case FilterIterator_moveNext up this w of
             None \<Rightarrow> None
           | Some (Inl e) \<Rightarrow> Some (Inl e)
           | Some (Inr (this', w')) \<Rightarrow> Some (Inr (x, this', w'))))"

definition FilterIterator ::
  "('s, 'a, 'w) Iterator \<Rightarrow> (('s, 'a) FilterIterator_state, 'a, 'w) Iterator" where
  "FilterIterator up =
     \<lparr>hasNext = FilterIterator_hasNext,
      estimateRemaining = FilterIterator_estimateRemaining up,
      next = FilterIterator_next up\<rparr>"

section \<open>FlatMap\<close>

text \<open>
  \<open>up\<close> is the outer stage, \<open>inner\<close> the stage type of the streams that \<^verbatim>\<open>lambda\<close>
  returns; \<^verbatim>\<open>lambda(x).getIterator()\<close> is \<open>iterator (fm_lambda this x)\<close>. The stream
  that \<^verbatim>\<open>lambda\<close> returns for \<open>x\<close> stands on its own: its cursors point into a sequence
  that \<open>x\<close> designates and that stays alive while the inner iterator is in use.
\<close>

record ('s, 'a, 't) FlatMapIterator_state =
  fm_streamIt :: 's
  fm_lambda :: "'a \<Rightarrow> 't Stream"
  fm_innerIt :: "'t TypedStorage"
  fm_hasValue :: bool
  fm_hasInnerIt :: bool

text \<open>The \<^verbatim>\<open>while\<close> loop of \<^verbatim>\<open>FlatMapIterator::moveNext\<close>.\<close>

partial_function (option) FlatMapIterator_moveNext_loop ::
  "('s, 'a, 'w) Iterator \<Rightarrow> ('t, 'b, 'w) Iterator
     \<Rightarrow> ('s, 'a, 't) FlatMapIterator_state \<Rightarrow> 'w \<Rightarrow> (('s, 'a, 't) FlatMapIterator_state \<times> 'w) result" where
  "FlatMapIterator_moveNext_loop up inner this w =
     (case hasNext up (fm_streamIt this) of (b, s1) \<Rightarrow>
        if b
        then (case next up s1 w of
                None \<Rightarrow> None
              | Some (Inl e) \<Rightarrow> Some (Inl e)
              | Some (Inr (x, s2, w2)) \<Rightarrow>
                  (case (if fm_hasInnerIt this
                         then (case TypedStorage_get (fm_innerIt this) of
                                 Inl e \<Rightarrow> Inl e
                               | Inr old \<Rightarrow> Inr (this\<lparr>fm_streamIt := s2,
                                                        fm_innerIt := Some (iterator (fm_lambda this x))\<rparr>))
                         else Inr (this\<lparr>fm_streamIt := s2,
                                        fm_innerIt := TypedStorage_construct (iterator (fm_lambda this x))
                                                        (fm_innerIt this),
                                        fm_hasInnerIt := True\<rparr>)) of
                     Inl e \<Rightarrow> Some (Inl e)
                   | Inr this1 \<Rightarrow>
                       (case TypedStorage_get (fm_innerIt this1) of
                          Inl e \<Rightarrow> Some (Inl e)
                        | Inr i \<Rightarrow>
                            (case hasNext inner i of (b', i') \<Rightarrow>
                               if b'
                               then Some (Inr (this1\<lparr>fm_innerIt := Some i', fm_hasValue := True\<rparr>, w2))
                               else FlatMapIterator_moveNext_loop up inner
                                      (this1\<lparr>fm_innerIt := Some i'\<rparr>) w2))))
        else Some (Inr (this\<lparr>fm_streamIt := s1\<rparr>, w)))"

definition FlatMapIterator_moveNext ::
  "('s, 'a, 'w) Iterator \<Rightarrow> ('t, 'b, 'w) Iterator
     \<Rightarrow> ('s, 'a, 't) FlatMapIterator_state \<Rightarrow> 'w \<Rightarrow> (('s, 'a, 't) FlatMapIterator_state \<times> 'w) result" where
  "FlatMapIterator_moveNext up inner this w =
     (let this0 = this\<lparr>fm_hasValue := False\<rparr>
      in if fm_hasInnerIt this0
         then (case TypedStorage_get (fm_innerIt this0) of
                 Inl e \<Rightarrow> Some (Inl e)
               | Inr i \<Rightarrow>
                   (case hasNext inner i of (b, i') \<Rightarrow>
                      if b
                      then Some (Inr (this0\<lparr>fm_innerIt := Some i', fm_hasValue := True\<rparr>, w))
                      else FlatMapIterator_moveNext_loop up inner (this0\<lparr>fm_innerIt := Some i'\<rparr>) w))
         else FlatMapIterator_moveNext_loop up inner this0 w)"

text \<open>The constructor \<^verbatim>\<open>FlatMapIterator(TStreamIt i, TLam l)\<close>, which calls \<^verbatim>\<open>moveNext\<close>.\<close>

definition FlatMapIterator_init ::
  "('s, 'a, 'w) Iterator \<Rightarrow> ('t, 'b, 'w) Iterator \<Rightarrow> 's \<Rightarrow> ('a \<Rightarrow> 't Stream) \<Rightarrow> 'w
     \<Rightarrow> (('s, 'a, 't) FlatMapIterator_state \<times> 'w) result" where
  "FlatMapIterator_init up inner i l w =
     FlatMapIterator_moveNext up inner
       \<lparr>fm_streamIt = i, fm_lambda = l, fm_innerIt = None, fm_hasValue = False, fm_hasInnerIt = False\<rparr> w"

definition FlatMapIterator_hasNext ::
  "('s, 'a, 't) FlatMapIterator_state \<Rightarrow> bool \<times> ('s, 'a, 't) FlatMapIterator_state" where
  "FlatMapIterator_hasNext this = (fm_hasValue this, this)"

definition FlatMapIterator_estimateRemaining ::
  "('s, 'a, 'w) Iterator \<Rightarrow> ('s, 'a, 't) FlatMapIterator_state
     \<Rightarrow> cint \<times> ('s, 'a, 't) FlatMapIterator_state" where
  "FlatMapIterator_estimateRemaining up this =
     (case estimateRemaining up (fm_streamIt this) of (n, s') \<Rightarrow> (n, this\<lparr>fm_streamIt := s'\<rparr>))"

definition FlatMapIterator_next ::
  "('s, 'a, 'w) Iterator \<Rightarrow> ('t, 'b, 'w) Iterator
     \<Rightarrow> ('s, 'a, 't) FlatMapIterator_state \<Rightarrow> 'w \<Rightarrow> ('b \<times> ('s, 'a, 't) FlatMapIterator_state \<times> 'w) result" where
  "FlatMapIterator_next up inner this w =
     (case TypedStorage_get (fm_innerIt this) of
        Inl e \<Rightarrow> Some (Inl e)
      | Inr i \<Rightarrow>
          (case next inner i w of
             None \<Rightarrow> None
           | Some (Inl e) \<Rightarrow> Some (Inl e)
           | Some (Inr (x, i', w1)) \<Rightarrow>
               (case FlatMapIterator_moveNext up inner (this\<lparr>fm_innerIt := Some i'\<rparr>) w1 of
                  None \<Rightarrow> None
                | Some (Inl e) \<Rightarrow> Some (Inl e)
                | Some (Inr (this', w2)) \<Rightarrow> Some (Inr (x, this', w2)))))"

definition FlatMapIterator ::
  "('s, 'a, 'w) Iterator \<Rightarrow> ('t, 'b, 'w) Iterator
     \<Rightarrow> (('s, 'a, 't) FlatMapIterator_state, 'b, 'w) Iterator" where
  "FlatMapIterator up inner =
     \<lparr>hasNext = FlatMapIterator_hasNext,
      estimateRemaining = FlatMapIterator_estimateRemaining up,
      next = FlatMapIterator_next up inner\<rparr>"

section \<open>Terminal operations\<close>

partial_function (option) Stream_sink ::
  "('s, 'a, 'w) Iterator \<Rightarrow> 's Stream \<Rightarrow> 'w \<Rightarrow> ('s Stream \<times> 'w) result" where
  "Stream_sink up this w =
     (case hasNext up (iterator this) of (b, it1) \<Rightarrow>
        if b
        then (case next up it1 w of
                None \<Rightarrow> None
              | Some (Inl e) \<Rightarrow> Some (Inl e)
              | Some (Inr (x, it2, w2)) \<Rightarrow> Stream_sink up (Stream it2) w2)
        else Some (Inr (Stream it1, w)))"


partial_function (option) Stream_reduce ::
  "('s, 'a, 'w) Iterator \<Rightarrow> ('a \<Rightarrow> 'v \<Rightarrow> 'v) \<Rightarrow> 'v \<Rightarrow> 's Stream \<Rightarrow> 'w \<Rightarrow> ('v \<times> 's Stream \<times> 'w) result" where
  "Stream_reduce up f accu this w =
     (case hasNext up (iterator this) of (b, it1) \<Rightarrow>
        if b
        then (case next up it1 w of
                None \<Rightarrow> None
              | Some (Inl e) \<Rightarrow> Some (Inl e)
              | Some (Inr (x, it2, w2)) \<Rightarrow> Stream_reduce up f (f x accu) (Stream it2) w2)
        else Some (Inr (accu, Stream it1, w)))"

text \<open>The loop of \<^verbatim>\<open>count()\<close>, entered with \<^verbatim>\<open>ctr\<close>.\<close>

partial_function (option) Stream_count_loop ::
  "('s, 'a, 'w) Iterator \<Rightarrow> cint \<Rightarrow> 's Stream \<Rightarrow> 'w \<Rightarrow> (cint \<times> 's Stream \<times> 'w) result" where
  "Stream_count_loop up ctr this w =
     (case hasNext up (iterator this) of (b, it1) \<Rightarrow>
        if b
        then (case next up it1 w of
                None \<Rightarrow> None
              | Some (Inl e) \<Rightarrow> Some (Inl e)
              | Some (Inr (x, it2, w2)) \<Rightarrow> Stream_count_loop up (ctr + 1) (Stream it2) w2)
        else Some (Inr (ctr, Stream it1, w)))"

definition Stream_count ::
  "('s, 'a, 'w) Iterator \<Rightarrow> 's Stream \<Rightarrow> 'w \<Rightarrow> (cint \<times> 's Stream \<times> 'w) result" where
  "Stream_count up this w = Stream_count_loop up 0 this w"

text \<open>The loop of the overload \<^verbatim>\<open>count(TFunc f)\<close>.\<close>

partial_function (option) Stream_count_f_loop ::
  "('s, 'a, 'w) Iterator \<Rightarrow> ('a \<Rightarrow> bool) \<Rightarrow> cint \<Rightarrow> 's Stream \<Rightarrow> 'w \<Rightarrow> (cint \<times> 's Stream \<times> 'w) result" where
  "Stream_count_f_loop up f ctr this w =
     (case hasNext up (iterator this) of (b, it1) \<Rightarrow>
        if b
        then (case next up it1 w of
                None \<Rightarrow> None
              | Some (Inl e) \<Rightarrow> Some (Inl e)
              | Some (Inr (x, it2, w2)) \<Rightarrow>
                  Stream_count_f_loop up f (if f x then ctr + 1 else ctr) (Stream it2) w2)
        else Some (Inr (ctr, Stream it1, w)))"

definition Stream_count_f ::
  "('s, 'a, 'w) Iterator \<Rightarrow> ('a \<Rightarrow> bool) \<Rightarrow> 's Stream \<Rightarrow> 'w \<Rightarrow> (cint \<times> 's Stream \<times> 'w) result" where
  "Stream_count_f up f this w = Stream_count_f_loop up f 0 this w"

text \<open>\<^verbatim>\<open>emplaceInto\<close> appends to the caller's container \<open>cont\<close>.\<close>

partial_function (option) Stream_emplaceInto ::
  "('s, 'a, 'w) Iterator \<Rightarrow> 'a list \<Rightarrow> 's Stream \<Rightarrow> 'w \<Rightarrow> ('a list \<times> 's Stream \<times> 'w) result" where
  "Stream_emplaceInto up cont this w =
     (case hasNext up (iterator this) of (b, it1) \<Rightarrow>
        if b
        then (case next up it1 w of
                None \<Rightarrow> None
              | Some (Inl e) \<Rightarrow> Some (Inl e)
              | Some (Inr (x, it2, w2)) \<Rightarrow> Stream_emplaceInto up (cont @ [x]) (Stream it2) w2)
        else Some (Inr (cont, Stream it1, w)))"

subsection \<open>Construction and chaining\<close>

text \<open>
  \<^verbatim>\<open>of(container)\<close> is the stream over \<^verbatim>\<open>container.begin()\<close> and
  \<^verbatim>\<open>container.end()\<close>; \<^verbatim>\<open>of(begin, end)\<close> takes two pointers into an array.
\<close>

definition Stream_of :: "'a list \<Rightarrow> 'a StreamIterator_state Stream" where
  "Stream_of container = Stream \<lparr>array = container, current = 0, end' = length container\<rparr>"

definition Stream_of_pointers :: "'a list \<Rightarrow> nat \<Rightarrow> nat \<Rightarrow> 'a StreamIterator_state Stream" where
  "Stream_of_pointers arr begin e = Stream \<lparr>array = arr, current = begin, end' = e\<rparr>"

definition Stream_empty :: "unit Stream" where
  "Stream_empty = Stream ()"

text \<open>
  A chaining call passes the member \<^verbatim>\<open>iterator\<close> to the constructor of the new stream,
  whose parameter takes it by value: the new stage works on a copy, and the stream the
  call was made on keeps its own. Each call returns the new stream and the stream it was
  called on.
\<close>

definition Stream_limit :: "'s Stream \<Rightarrow> cint \<Rightarrow> 's LimitIterator_state Stream \<times> 's Stream" where
  "Stream_limit this s = (Stream (LimitIterator_init (iterator this) s), this)"

definition Stream_map :: "'s Stream \<Rightarrow> 'f \<Rightarrow> ('s, 'f) MapIterator_state Stream \<times> 's Stream" where
  "Stream_map this lambda = (Stream \<lparr>mi_it = iterator this, mi_lambda = lambda\<rparr>, this)"

definition Stream_tap :: "'s Stream \<Rightarrow> 'f \<Rightarrow> ('s, 'f) TapIterator_state Stream \<times> 's Stream" where
  "Stream_tap this lambda = (Stream \<lparr>ti_it = iterator this, ti_lambda = lambda\<rparr>, this)"

definition Stream_filter ::
  "('s, 'a, 'w) Iterator \<Rightarrow> 's Stream \<Rightarrow> ('a \<Rightarrow> bool) \<Rightarrow> 'w
     \<Rightarrow> (('s, 'a) FilterIterator_state Stream \<times> 's Stream \<times> 'w) result" where
  "Stream_filter up this lambda w =
     (case FilterIterator_init up (iterator this) lambda w of
        None \<Rightarrow> None
      | Some (Inl e) \<Rightarrow> Some (Inl e)
      | Some (Inr (fi, w')) \<Rightarrow> Some (Inr (Stream fi, this, w')))"

definition Stream_flatMap ::
  "('s, 'a, 'w) Iterator \<Rightarrow> ('t, 'b, 'w) Iterator \<Rightarrow> 's Stream \<Rightarrow> ('a \<Rightarrow> 't Stream) \<Rightarrow> 'w
     \<Rightarrow> (('s, 'a, 't) FlatMapIterator_state Stream \<times> 's Stream \<times> 'w) result" where
  "Stream_flatMap up inner this lambda w =
     (case FlatMapIterator_init up inner (iterator this) lambda w of
        None \<Rightarrow> None
      | Some (Inl e) \<Rightarrow> Some (Inl e)
      | Some (Inr (fm, w')) \<Rightarrow> Some (Inr (Stream fm, this, w')))"

section \<open>What a stage yields\<close>

text \<open>
  \<open>produces up s xs s'\<close>: pulled under the protocol (\<^verbatim>\<open>hasNext\<close>, then \<^verbatim>\<open>next\<close>), the
  stage \<open>up\<close> in state \<open>s\<close> returns the elements \<open>xs\<close> one after the other, whatever the
  outside state is, and is then exhausted in state \<open>s'\<close>.
\<close>

inductive produces :: "('s, 'a, 'w) Iterator \<Rightarrow> 's \<Rightarrow> 'a list \<Rightarrow> 's \<Rightarrow> bool" where
  produces_Nil: "hasNext up s = (False, s) \<Longrightarrow> produces up s [] s"
| produces_Cons:
    "hasNext up s = (True, s) \<Longrightarrow> (\<And>w. \<exists>w'. next up s w = Some (Inr (x, s1, w')))
       \<Longrightarrow> produces up s1 xs s' \<Longrightarrow> produces up s (x # xs) s'"

text \<open>
  What a \<^verbatim>\<open>FilterIterator\<close> holds between two calls: the buffered element is the first
  of the remaining output \<open>ys\<close>, and the rest of \<open>ys\<close> is what the predicate keeps of
  the elements the upstream still has.
\<close>

definition FilterIterator_holds ::
  "('s, 'a, 'w) Iterator \<Rightarrow> ('s, 'a) FilterIterator_state \<Rightarrow> 'a list \<Rightarrow> 's \<Rightarrow> bool" where
  "FilterIterator_holds up this ys s' \<longleftrightarrow>
     (fi_hasInit this \<longrightarrow> fi_currentValue this \<noteq> None) \<and>
     (case ys of
        [] \<Rightarrow> \<not> fi_hasValue this \<and> fi_it this = s' \<and> hasNext up s' = (False, s')
      | y # ys' \<Rightarrow> fi_hasValue this \<and> fi_currentValue this = Some y \<and>
          (\<exists>xs. produces up (fi_it this) xs s' \<and> filter (fi_lambda this) xs = ys'))"

text \<open>
  What a \<^verbatim>\<open>FlatMapIterator\<close> holds between two calls, where the stream \<open>l x\<close> yields
  \<open>g x\<close>: the live inner iterator is at the first element of the remaining output, and
  the rest is what is left of it followed by the inner streams of the outer elements
  still to come.
\<close>

definition FlatMapIterator_holds ::
  "('s, 'a, 'w) Iterator \<Rightarrow> ('t, 'b, 'w) Iterator \<Rightarrow> ('a \<Rightarrow> 't Stream) \<Rightarrow> ('a \<Rightarrow> 'b list)
     \<Rightarrow> ('s, 'a, 't) FlatMapIterator_state \<Rightarrow> 'b list \<Rightarrow> 's \<Rightarrow> bool" where
  "FlatMapIterator_holds up inner l g this ys s' \<longleftrightarrow>
     fm_lambda this = l \<and> (fm_hasInnerIt this \<longrightarrow> fm_innerIt this \<noteq> None) \<and>
     (case ys of
        [] \<Rightarrow> \<not> fm_hasValue this \<and> fm_streamIt this = s' \<and> hasNext up s' = (False, s')
      | y # ys' \<Rightarrow> fm_hasValue this \<and> fm_hasInnerIt this \<and>
          (\<exists>i zs t' xs. fm_innerIt this = Some i \<and> produces inner i (y # zs) t' \<and>
             produces up (fm_streamIt this) xs s' \<and>
             (\<forall>x \<in> set xs. \<exists>t'. produces inner (iterator (l x)) (g x) t') \<and>
             ys' = zs @ concat (map g xs)))"

text \<open>
  \<^verbatim>\<open>hasNext\<close> is a pure query at \<open>s\<close>: the call leaves the object as it was, and a
  second call gives the same answer.
\<close>

definition hasNext_pure :: "('s, 'a, 'w) Iterator \<Rightarrow> 's \<Rightarrow> bool" where
  "hasNext_pure up s \<longleftrightarrow> snd (hasNext up s) = s \<and> hasNext up (snd (hasNext up s)) = hasNext up s"

section \<open>Properties\<close>

subsection \<open>Stages as records of member functions\<close>

lemma StreamIterator_sel [simp]:
  "hasNext StreamIterator = StreamIterator_hasNext"
  "estimateRemaining StreamIterator = StreamIterator_estimateRemaining"
  "next StreamIterator = StreamIterator_next"
  by (simp_all add: StreamIterator_def)

lemma EmptyIterator_sel [simp]:
  "hasNext EmptyIterator = EmptyIterator_hasNext"
  "estimateRemaining EmptyIterator = EmptyIterator_estimateRemaining"
  "next EmptyIterator = EmptyIterator_next"
  by (simp_all add: EmptyIterator_def)

lemma MapIterator_sel [simp]:
  "hasNext (MapIterator up) = MapIterator_hasNext up"
  "estimateRemaining (MapIterator up) = MapIterator_estimateRemaining up"
  "next (MapIterator up) = MapIterator_next up"
  by (simp_all add: MapIterator_def)

lemma TapIterator_sel [simp]:
  "hasNext (TapIterator up) = TapIterator_hasNext up"
  "estimateRemaining (TapIterator up) = TapIterator_estimateRemaining up"
  "next (TapIterator up) = TapIterator_next up"
  by (simp_all add: TapIterator_def)

lemma LimitIterator_sel [simp]:
  "hasNext (LimitIterator up) = LimitIterator_hasNext up"
  "estimateRemaining (LimitIterator up) = LimitIterator_estimateRemaining up"
  "next (LimitIterator up) = LimitIterator_next up"
  by (simp_all add: LimitIterator_def)

lemma FilterIterator_sel [simp]:
  "hasNext (FilterIterator up) = FilterIterator_hasNext"
  "estimateRemaining (FilterIterator up) = FilterIterator_estimateRemaining up"
  "next (FilterIterator up) = FilterIterator_next up"
  by (simp_all add: FilterIterator_def)

lemma FlatMapIterator_sel [simp]:
  "hasNext (FlatMapIterator up inner) = FlatMapIterator_hasNext"
  "estimateRemaining (FlatMapIterator up inner) = FlatMapIterator_estimateRemaining up"
  "next (FlatMapIterator up inner) = FlatMapIterator_next up inner"
  by (simp_all add: FlatMapIterator_def)

lemmas eval_defs = StreamIterator_hasNext_def StreamIterator_next_def StreamIterator_estimateRemaining_def
  LimitIterator_hasNext_def LimitIterator_next_def LimitIterator_init_def
  FilterIterator_hasNext_def FilterIterator_next_def FilterIterator_init_def FilterIterator_moveNext_def
  FlatMapIterator_hasNext_def FlatMapIterator_next_def FlatMapIterator_init_def FlatMapIterator_moveNext_def
  FlatMapIterator_estimateRemaining_def TapIterator_hasNext_def TapIterator_next_def
  MapIterator_hasNext_def MapIterator_next_def
  TypedStorage_get_def TypedStorage_construct_def Stream_of_def Stream_limit_def Stream_of_pointers_def
  Stream_count_def Stream_tap_def Stream_map_def

subsection \<open>Sequences and the terminal operations\<close>

inductive_cases produces_ConsE: "produces up s (x # xs) s'"

inductive_cases produces_NilE: "produces up s [] s'"

lemma produces_final: "produces up s xs s' \<Longrightarrow> hasNext up s' = (False, s')"
  by (induction rule: produces.induct) simp_all

lemma produces_hasNext: "produces up s ys s' \<Longrightarrow> fst (hasNext up s) = (ys \<noteq> [])"
  by (induction rule: produces.induct) simp_all

lemma Stream_sink_produces:
  "produces up s xs s' \<Longrightarrow> \<exists>w'. Stream_sink up (Stream s) w = Some (Inr (Stream s', w'))"
proof (induction arbitrary: w rule: produces.induct)
  case (produces_Nil up s)
  then show ?case by (subst Stream_sink.simps) simp
next
  case (produces_Cons up s x s1 xs s')
  from produces_Cons.hyps(2) obtain w1 where n: "next up s w = Some (Inr (x, s1, w1))" by blast
  from produces_Cons.IH [of w1] obtain w' where
    "Stream_sink up (Stream s1) w1 = Some (Inr (Stream s', w'))" by blast
  then show ?case using produces_Cons.hyps(1) n
    by (subst Stream_sink.simps) simp
qed

lemma Stream_reduce_produces:
  "produces up s xs s' \<Longrightarrow> \<exists>w'. Stream_reduce up f a (Stream s) w = Some (Inr (fold f xs a, Stream s', w'))"
proof (induction arbitrary: a w rule: produces.induct)
  case (produces_Nil up s)
  then show ?case by (subst Stream_reduce.simps) simp
next
  case (produces_Cons up s x s1 xs s')
  from produces_Cons.hyps(2) obtain w1 where n: "next up s w = Some (Inr (x, s1, w1))" by blast
  from produces_Cons.IH [of "f x a" w1] obtain w' where
    "Stream_reduce up f (f x a) (Stream s1) w1 = Some (Inr (fold f xs (f x a), Stream s', w'))" by blast
  then show ?case using produces_Cons.hyps(1) n
    by (subst Stream_reduce.simps) simp
qed

lemma Stream_count_loop_produces:
  "produces up s xs s' \<Longrightarrow>
     \<exists>w'. Stream_count_loop up c (Stream s) w = Some (Inr (c + of_nat (length xs), Stream s', w'))"
proof (induction arbitrary: c w rule: produces.induct)
  case (produces_Nil up s)
  then show ?case by (subst Stream_count_loop.simps) simp
next
  case (produces_Cons up s x s1 xs s')
  from produces_Cons.hyps(2) obtain w1 where n: "next up s w = Some (Inr (x, s1, w1))" by blast
  from produces_Cons.IH [of "c + 1" w1] obtain w' where
    "Stream_count_loop up (c + 1) (Stream s1) w1 = Some (Inr (c + 1 + of_nat (length xs), Stream s', w'))"
    by blast
  then show ?case using produces_Cons.hyps(1) n
    by (subst Stream_count_loop.simps) (simp add: add.assoc)
qed

lemma Stream_count_produces:
  "produces up s xs s' \<Longrightarrow>
     \<exists>w'. Stream_count up (Stream s) w = Some (Inr (of_nat (length xs), Stream s', w'))"
  using Stream_count_loop_produces [of up s xs s' 0 w] by (simp add: Stream_count_def)

lemma Stream_count_f_loop_produces:
  "produces up s xs s' \<Longrightarrow>
     \<exists>w'. Stream_count_f_loop up f c (Stream s) w
            = Some (Inr (c + of_nat (length (filter f xs)), Stream s', w'))"
proof (induction arbitrary: c w rule: produces.induct)
  case (produces_Nil up s)
  then show ?case by (subst Stream_count_f_loop.simps) simp
next
  case (produces_Cons up s x s1 xs s')
  from produces_Cons.hyps(2) obtain w1 where n: "next up s w = Some (Inr (x, s1, w1))" by blast
  from produces_Cons.IH [of "if f x then c + 1 else c" w1] obtain w' where
    "Stream_count_f_loop up f (if f x then c + 1 else c) (Stream s1) w1
       = Some (Inr ((if f x then c + 1 else c) + of_nat (length (filter f xs)), Stream s', w'))"
    by blast
  then show ?case using produces_Cons.hyps(1) n
    by (subst Stream_count_f_loop.simps) (simp add: add.assoc)
qed

lemma Stream_count_f_produces:
  "produces up s xs s' \<Longrightarrow>
     \<exists>w'. Stream_count_f up f (Stream s) w = Some (Inr (of_nat (length (filter f xs)), Stream s', w'))"
  using Stream_count_f_loop_produces [of up s xs s' f 0 w] by (simp add: Stream_count_f_def)

lemma Stream_emplaceInto_produces:
  "produces up s xs s' \<Longrightarrow>
     \<exists>w'. Stream_emplaceInto up cont (Stream s) w = Some (Inr (cont @ xs, Stream s', w'))"
proof (induction arbitrary: cont w rule: produces.induct)
  case (produces_Nil up s)
  then show ?case by (subst Stream_emplaceInto.simps) simp
next
  case (produces_Cons up s x s1 xs s')
  from produces_Cons.hyps(2) obtain w1 where n: "next up s w = Some (Inr (x, s1, w1))" by blast
  from produces_Cons.IH [of "cont @ [x]" w1] obtain w' where
    "Stream_emplaceInto up (cont @ [x]) (Stream s1) w1 = Some (Inr ((cont @ [x]) @ xs, Stream s', w'))"
    by blast
  then show ?case using produces_Cons.hyps(1) n
    by (subst Stream_emplaceInto.simps) simp
qed

subsection \<open>What the sources, Map and Tap yield\<close>

lemma StreamIterator_produces:
  "c \<le> e \<Longrightarrow> e \<le> length arr \<Longrightarrow>
     produces StreamIterator \<lparr>array = arr, current = c, end' = e\<rparr>
       (take (e - c) (drop c arr)) \<lparr>array = arr, current = e, end' = e\<rparr>"
proof (induction "e - c" arbitrary: c)
  case 0
  then have "c = e" by simp
  then show ?case
    by (simp add: produces_Nil StreamIterator_hasNext_def)
next
  case (Suc d)
  then have lt: "c < e" and d: "d = e - Suc c" by simp_all
  have split: "take (e - c) (drop c arr) = arr ! c # take (e - Suc c) (drop (Suc c) arr)"
    using lt Suc.prems
    by (metis Cons_nth_drop_Suc Suc_diff_Suc le_trans less_le_not_le linorder_le_less_linear take_Suc_Cons)
  show ?case
    unfolding split
    by (rule produces_Cons [OF _ _ Suc.hyps(1) [of "Suc c"]])
       (use lt d Suc.prems in \<open>simp_all add: StreamIterator_hasNext_def StreamIterator_next_def\<close>)
qed

lemma Stream_of_produces:
  "produces StreamIterator (iterator (Stream_of xs)) xs \<lparr>array = xs, current = length xs, end' = length xs\<rparr>"
  using StreamIterator_produces [of 0 "length xs" xs] by (simp add: Stream_of_def)

lemma MapIterator_produces:
  "produces up s xs s' \<Longrightarrow>
     produces (MapIterator up) \<lparr>mi_it = s, mi_lambda = f\<rparr> (map f xs) \<lparr>mi_it = s', mi_lambda = f\<rparr>"
proof (induction rule: produces.induct)
  case (produces_Nil up s)
  then show ?case by (simp add: produces.produces_Nil MapIterator_hasNext_def)
next
  case (produces_Cons up s x s1 xs s')
  have nx: "\<exists>w'. next (MapIterator up) \<lparr>mi_it = s, mi_lambda = f\<rparr> w
          = Some (Inr (f x, \<lparr>mi_it = s1, mi_lambda = f\<rparr>, w'))" for w
    using produces_Cons.hyps(2) [of w] by (auto simp add: MapIterator_next_def)
  show ?case
    using produces.produces_Cons [OF _ nx produces_Cons.IH] produces_Cons.hyps(1)
    by (simp add: MapIterator_hasNext_def)
qed

lemma TapIterator_produces:
  assumes "produces up s xs s'" and l: "\<forall>x w. fst (l x w) = x"
  shows "produces (TapIterator up) \<lparr>ti_it = s, ti_lambda = l\<rparr> xs \<lparr>ti_it = s', ti_lambda = l\<rparr>"
  using assms(1)
proof (induction rule: produces.induct)
  case (produces_Nil up s)
  then show ?case by (simp add: produces.produces_Nil TapIterator_hasNext_def)
next
  case (produces_Cons up s x s1 xs s')
  have nx: "\<exists>w'. next (TapIterator up) \<lparr>ti_it = s, ti_lambda = l\<rparr> w
          = Some (Inr (x, \<lparr>ti_it = s1, ti_lambda = l\<rparr>, w'))" for w
  proof -
    from produces_Cons.hyps(2) obtain w1 where "next up s w = Some (Inr (x, s1, w1))" by blast
    moreover obtain w2 where "l x w1 = (x, w2)"
      using l by (metis prod.collapse)
    ultimately have "next (TapIterator up) \<lparr>ti_it = s, ti_lambda = l\<rparr> w
          = Some (Inr (x, \<lparr>ti_it = s1, ti_lambda = l\<rparr>, w2))"
      by (simp add: TapIterator_next_def)
    then show ?thesis ..
  qed
  show ?case
    using produces.produces_Cons [OF _ nx produces_Cons.IH] produces_Cons.hyps(1)
    by (simp add: TapIterator_hasNext_def)
qed

subsection \<open>What Limit yields\<close>

lemma sint_succ: "(k :: cint) <s n \<Longrightarrow> sint (k + 1) = sint k + 1"
proof -
  assume "k <s n"
  then have "sint k < sint n" by (simp add: word_sless_alt)
  moreover have "sint n < 2 ^ 31" using sint_lt [of n] by simp
  moreover have "- (2 ^ 31) \<le> sint k" using sint_ge [of k] by simp
  ultimately have "signed_take_bit 31 (sint k + 1) = sint k + 1"
    by (intro signed_take_bit_int_eq_self) simp_all
  then show ?thesis by (simp add: sint_word_ariths)
qed

lemma LimitIterator_produces:
  "produces up s xs s' \<Longrightarrow>
     \<exists>st'. produces (LimitIterator up) \<lparr>li_it = s, li_size = n, li_idx = k\<rparr>
             (take (nat (sint n - sint k)) xs) st'"
proof (induction arbitrary: k rule: produces.induct)
  case (produces_Nil up s)
  have "hasNext (LimitIterator up) \<lparr>li_it = s, li_size = n, li_idx = k\<rparr>
          = (False, \<lparr>li_it = s, li_size = n, li_idx = k\<rparr>)"
    using produces_Nil by (simp add: LimitIterator_hasNext_def)
  from produces.produces_Nil [OF this] show ?case by auto
next
  case (produces_Cons up s x s1 xs s')
  show ?case
  proof (cases "k <s n")
    case True
    then have pos: "0 < sint n - sint k" by (simp add: word_sless_alt)
    from produces_Cons.IH [of "k + 1"] obtain st' where
      rest: "produces (LimitIterator up) \<lparr>li_it = s1, li_size = n, li_idx = k + 1\<rparr>
               (take (nat (sint n - sint (k + 1))) xs) st'" by blast
    have "nat (sint n - sint k) = Suc (nat (sint n - sint (k + 1)))"
      using pos sint_succ [OF True] by simp
    then have t: "take (nat (sint n - sint k)) (x # xs) = x # take (nat (sint n - sint (k + 1))) xs"
      by simp
    have h: "hasNext (LimitIterator up) \<lparr>li_it = s, li_size = n, li_idx = k\<rparr>
          = (True, \<lparr>li_it = s, li_size = n, li_idx = k\<rparr>)"
      using produces_Cons.hyps(1) True by (simp add: LimitIterator_hasNext_def)
    have nx: "\<exists>w'. next (LimitIterator up) \<lparr>li_it = s, li_size = n, li_idx = k\<rparr> w
          = Some (Inr (x, \<lparr>li_it = s1, li_size = n, li_idx = k + 1\<rparr>, w'))" for w
      using produces_Cons.hyps(2) [of w] by (auto simp add: LimitIterator_next_def)
    show ?thesis unfolding t
      using produces.produces_Cons [OF h nx rest] by blast
  next
    case False
    then have z: "nat (sint n - sint k) = 0" by (simp add: word_sless_alt)
    have "hasNext (LimitIterator up) \<lparr>li_it = s, li_size = n, li_idx = k\<rparr>
          = (False, \<lparr>li_it = s, li_size = n, li_idx = k\<rparr>)"
      using False by (simp add: LimitIterator_hasNext_def)
    from produces.produces_Nil [OF this] show ?thesis using z by auto
  qed
qed

lemma LimitIterator_hasNext_nonpositive:
  "sint n \<le> 0 \<Longrightarrow>
     hasNext (LimitIterator up) (LimitIterator_init i n) = (False, LimitIterator_init i n)"
  by (simp add: LimitIterator_def LimitIterator_hasNext_def LimitIterator_init_def word_sless_alt)

subsection \<open>What Filter yields\<close>

lemma filter_dropWhile_Nil: "dropWhile (\<lambda>x. \<not> P x) xs = [] \<Longrightarrow> filter P xs = []"
  by (induction xs) (auto split: if_splits)

lemma filter_dropWhile_Cons: "dropWhile (\<lambda>x. \<not> P x) xs = y # ys \<Longrightarrow> filter P xs = y # filter P ys"
  by (induction xs) (auto split: if_splits)

lemma FilterIterator_moveNext_loop_produces:
  "produces up s xs s' \<Longrightarrow> fi_it this = s \<Longrightarrow> (fi_hasInit this \<longrightarrow> fi_currentValue this \<noteq> None) \<Longrightarrow>
     (case dropWhile (\<lambda>x. \<not> fi_lambda this x) xs of
        [] \<Rightarrow> \<forall>w. \<exists>w'. FilterIterator_moveNext_loop up this w = Some (Inr (this\<lparr>fi_it := s'\<rparr>, w'))
      | y # ys \<Rightarrow> \<exists>s2. produces up s2 ys s' \<and>
          (\<forall>w. \<exists>w'. FilterIterator_moveNext_loop up this w
              = Some (Inr (this\<lparr>fi_it := s2, fi_currentValue := Some y,
                              fi_hasInit := True, fi_hasValue := True\<rparr>, w'))))"
proof (induction arbitrary: this rule: produces.induct)
  case (produces_Nil up s)
  then show ?case by (subst FilterIterator_moveNext_loop.simps) simp
next
  case (produces_Cons up s x s1 xs s')
  show ?case
  proof (cases "fi_lambda this x")
    case True
    have "\<exists>w'. FilterIterator_moveNext_loop up this w
              = Some (Inr (this\<lparr>fi_it := s1, fi_currentValue := Some x,
                              fi_hasInit := True, fi_hasValue := True\<rparr>, w'))" for w
    proof -
      from produces_Cons.hyps(2) obtain w1 where "next up s w = Some (Inr (x, s1, w1))" by blast
      then show ?thesis
        using produces_Cons.hyps(1) produces_Cons.prems True
        by (subst FilterIterator_moveNext_loop.simps)
           (auto simp add: TypedStorage_construct_def TypedStorage_get_def)
    qed
    then show ?thesis using True produces_Cons.hyps(3) by auto
  next
    case False
    have step: "\<exists>w1. FilterIterator_moveNext_loop up this w
             = FilterIterator_moveNext_loop up (this\<lparr>fi_it := s1\<rparr>) w1" for w
    proof -
      from produces_Cons.hyps(2) obtain w1 where "next up s w = Some (Inr (x, s1, w1))" by blast
      then have "FilterIterator_moveNext_loop up this w
             = FilterIterator_moveNext_loop up (this\<lparr>fi_it := s1\<rparr>) w1"
        using produces_Cons.hyps(1) produces_Cons.prems False
        by (subst FilterIterator_moveNext_loop.simps) simp
      then show ?thesis ..
    qed
    have "fi_it (this\<lparr>fi_it := s1\<rparr>) = s1"
      "fi_hasInit (this\<lparr>fi_it := s1\<rparr>) \<longrightarrow> fi_currentValue (this\<lparr>fi_it := s1\<rparr>) \<noteq> None"
      using produces_Cons.prems by simp_all
    note IH = produces_Cons.IH [OF this]
    have dw: "dropWhile (\<lambda>x. \<not> fi_lambda this x) (x # xs) = dropWhile (\<lambda>x. \<not> fi_lambda this x) xs"
      using False by simp
    show ?thesis
    proof (cases "dropWhile (\<lambda>x. \<not> fi_lambda this x) xs")
      case Nil
      with IH have "\<forall>w. \<exists>w'. FilterIterator_moveNext_loop up (this\<lparr>fi_it := s1\<rparr>) w
                      = Some (Inr (this\<lparr>fi_it := s'\<rparr>, w'))" by simp
      then have "\<forall>w. \<exists>w'. FilterIterator_moveNext_loop up this w
                      = Some (Inr (this\<lparr>fi_it := s'\<rparr>, w'))"
        using step by metis
      then show ?thesis unfolding dw Nil list.case .
    next
      case (Cons y ys)
      with IH obtain s2 where p: "produces up s2 ys s'"
        and l: "\<forall>w. \<exists>w'. FilterIterator_moveNext_loop up (this\<lparr>fi_it := s1\<rparr>) w
              = Some (Inr (this\<lparr>fi_it := s2, fi_currentValue := Some y,
                              fi_hasInit := True, fi_hasValue := True\<rparr>, w'))" by auto
      from l have "\<forall>w. \<exists>w'. FilterIterator_moveNext_loop up this w
              = Some (Inr (this\<lparr>fi_it := s2, fi_currentValue := Some y,
                              fi_hasInit := True, fi_hasValue := True\<rparr>, w'))"
        using step by metis
      then show ?thesis using p unfolding dw Cons list.case by blast
    qed
  qed
qed

lemma FilterIterator_moveNext_holds:
  assumes p: "produces up (fi_it this) xs s'"
    and wf: "fi_hasInit this \<longrightarrow> fi_currentValue this \<noteq> None"
  shows "\<exists>this'. (\<forall>w. \<exists>w'. FilterIterator_moveNext up this w = Some (Inr (this', w')))
           \<and> FilterIterator_holds up this' (filter (fi_lambda this) xs) s'
           \<and> fi_lambda this' = fi_lambda this"
proof -
  let ?t = "this\<lparr>fi_hasValue := False\<rparr>"
  have a: "fi_it ?t = fi_it this" "fi_hasInit ?t \<longrightarrow> fi_currentValue ?t \<noteq> None"
    using wf by simp_all
  note L = FilterIterator_moveNext_loop_produces [OF p a]
  show ?thesis
  proof (cases "dropWhile (\<lambda>x. \<not> fi_lambda this x) xs")
    case Nil
    with L have "\<forall>w. \<exists>w'. FilterIterator_moveNext up this w = Some (Inr (?t\<lparr>fi_it := s'\<rparr>, w'))"
      by (simp add: FilterIterator_moveNext_def)
    moreover have "FilterIterator_holds up (?t\<lparr>fi_it := s'\<rparr>) (filter (fi_lambda this) xs) s'"
      using filter_dropWhile_Nil [OF Nil] produces_final [OF p] wf
      by (simp add: FilterIterator_holds_def)
    ultimately show ?thesis by (intro exI [of _ "?t\<lparr>fi_it := s'\<rparr>"]) simp
  next
    case (Cons y ys)
    with L obtain s2 where p2: "produces up s2 ys s'"
      and l: "\<forall>w. \<exists>w'. FilterIterator_moveNext up this w
              = Some (Inr (?t\<lparr>fi_it := s2, fi_currentValue := Some y,
                              fi_hasInit := True, fi_hasValue := True\<rparr>, w'))"
      by (auto simp add: FilterIterator_moveNext_def)
    let ?r = "?t\<lparr>fi_it := s2, fi_currentValue := Some y, fi_hasInit := True, fi_hasValue := True\<rparr>"
    have "FilterIterator_holds up ?r (filter (fi_lambda this) xs) s'"
      using filter_dropWhile_Cons [OF Cons] p2
      by (auto simp add: FilterIterator_holds_def)
    with l show ?thesis by (intro exI [of _ ?r]) simp
  qed
qed

lemma FilterIterator_holds_produces:
  "FilterIterator_holds up this ys s' \<Longrightarrow> \<exists>this'. produces (FilterIterator up) this ys this'"
proof (induction ys arbitrary: this)
  case Nil
  then have "hasNext (FilterIterator up) this = (False, this)"
    by (simp add: FilterIterator_holds_def FilterIterator_hasNext_def)
  from produces_Nil [OF this] show ?case ..
next
  case (Cons y ys)
  then obtain xs where wf: "fi_hasInit this \<longrightarrow> fi_currentValue this \<noteq> None"
    and hv: "fi_hasValue this" and cv: "fi_currentValue this = Some y"
    and p: "produces up (fi_it this) xs s'" and f: "filter (fi_lambda this) xs = ys"
    by (auto simp add: FilterIterator_holds_def)
  from FilterIterator_moveNext_holds [OF p wf] obtain this1 where
    m: "\<forall>w. \<exists>w'. FilterIterator_moveNext up this w = Some (Inr (this1, w'))"
    and h: "FilterIterator_holds up this1 ys s'"
    using f by auto
  from Cons.IH [OF h] obtain this' where rest: "produces (FilterIterator up) this1 ys this'" ..
  have hn: "hasNext (FilterIterator up) this = (True, this)"
    using hv by (simp add: FilterIterator_hasNext_def)
  have nx: "\<exists>w'. next (FilterIterator up) this w = Some (Inr (y, this1, w'))" for w
    using m [rule_format, of w] cv
    by (auto simp add: FilterIterator_next_def TypedStorage_get_def)
  from produces_Cons [OF hn nx rest] show ?case ..
qed

lemma FilterIterator_init_produces:
  assumes "produces up s xs s'"
  shows "\<exists>this this'. (\<forall>w. \<exists>w'. FilterIterator_init up s l w = Some (Inr (this, w')))
           \<and> produces (FilterIterator up) this (filter l xs) this'"
proof -
  let ?t = "\<lparr>fi_it = s, fi_lambda = l, fi_hasValue = False, fi_hasInit = False, fi_currentValue = None\<rparr>"
  have "produces up (fi_it ?t) xs s'" "fi_hasInit ?t \<longrightarrow> fi_currentValue ?t \<noteq> None"
    using assms by simp_all
  from FilterIterator_moveNext_holds [OF this] obtain this where
    m: "\<forall>w. \<exists>w'. FilterIterator_moveNext up ?t w = Some (Inr (this, w'))"
    and h: "FilterIterator_holds up this (filter l xs) s'" by auto
  from FilterIterator_holds_produces [OF h] obtain this' where
    "produces (FilterIterator up) this (filter l xs) this'" ..
  with m show ?thesis unfolding FilterIterator_init_def by blast
qed

subsection \<open>What FlatMap yields\<close>

lemma FlatMapIterator_moveNext_loop_holds:
  "produces up s xs s' \<Longrightarrow> fm_streamIt this = s \<Longrightarrow> \<not> fm_hasValue this \<Longrightarrow>
   (fm_hasInnerIt this \<longrightarrow> fm_innerIt this \<noteq> None) \<Longrightarrow>
   (\<forall>x \<in> set xs. \<exists>t'. produces inner (iterator (fm_lambda this x)) (g x) t') \<Longrightarrow>
   \<exists>this'. (\<forall>w. \<exists>w'. FlatMapIterator_moveNext_loop up inner this w = Some (Inr (this', w')))
      \<and> FlatMapIterator_holds up inner (fm_lambda this) g this' (concat (map g xs)) s'"
proof (induction arbitrary: this rule: produces.induct)
  case (produces_Nil up s)
  have "\<forall>w. \<exists>w'. FlatMapIterator_moveNext_loop up inner this w = Some (Inr (this, w'))"
    using produces_Nil by (subst FlatMapIterator_moveNext_loop.simps) simp
  moreover have "FlatMapIterator_holds up inner (fm_lambda this) g this (concat (map g [])) s"
    using produces_Nil by (simp add: FlatMapIterator_holds_def)
  ultimately show ?case by blast
next
  case (produces_Cons up s x s1 xs s')
  let ?i = "iterator (fm_lambda this x)"
  let ?this1 = "this\<lparr>fm_streamIt := s1, fm_innerIt := Some ?i, fm_hasInnerIt := True\<rparr>"
  from produces_Cons.prems(4) obtain t' where pi: "produces inner ?i (g x) t'" by auto
  have upd: "(if fm_hasInnerIt this
              then (case TypedStorage_get (fm_innerIt this) of
                      Inl e \<Rightarrow> Inl e
                    | Inr old \<Rightarrow> Inr (this\<lparr>fm_streamIt := s1, fm_innerIt := Some ?i\<rparr>))
              else Inr (this\<lparr>fm_streamIt := s1,
                             fm_innerIt := TypedStorage_construct ?i (fm_innerIt this),
                             fm_hasInnerIt := True\<rparr>)) = Inr ?this1"
    using produces_Cons.prems(3)
    by (auto simp add: TypedStorage_get_def TypedStorage_construct_def)
  show ?case
  proof (cases "g x")
    case Nil
    with pi have hn: "hasNext inner ?i = (False, ?i)" by (auto elim: produces_NilE)
    have step: "\<exists>w1. FlatMapIterator_moveNext_loop up inner this w
                  = FlatMapIterator_moveNext_loop up inner ?this1 w1" for w
    proof -
      from produces_Cons.hyps(2) obtain w1 where "next up s w = Some (Inr (x, s1, w1))" by blast
      then have "FlatMapIterator_moveNext_loop up inner this w
                  = FlatMapIterator_moveNext_loop up inner ?this1 w1"
        using produces_Cons.hyps(1) produces_Cons.prems(1) hn
        apply (subst FlatMapIterator_moveNext_loop.simps)
        apply (simp add: upd TypedStorage_get_def)
        apply (cases this)
        apply simp
        done
      then show ?thesis ..
    qed
    have "fm_streamIt ?this1 = s1" "\<not> fm_hasValue ?this1"
      "fm_hasInnerIt ?this1 \<longrightarrow> fm_innerIt ?this1 \<noteq> None"
      "\<forall>x \<in> set xs. \<exists>t'. produces inner (iterator (fm_lambda ?this1 x)) (g x) t'"
      using produces_Cons.prems by simp_all
    from produces_Cons.IH [OF this] obtain this' where
      l: "\<forall>w. \<exists>w'. FlatMapIterator_moveNext_loop up inner ?this1 w = Some (Inr (this', w'))"
      and h: "FlatMapIterator_holds up inner (fm_lambda this) g this' (concat (map g xs)) s'"
      by auto
    from l step have "\<forall>w. \<exists>w'. FlatMapIterator_moveNext_loop up inner this w = Some (Inr (this', w'))"
      by metis
    with h Nil show ?thesis by auto
  next
    case (Cons y zs)
    with pi have hn: "hasNext inner ?i = (True, ?i)" by (auto elim: produces_ConsE)
    let ?r = "?this1\<lparr>fm_hasValue := True\<rparr>"
    have "\<exists>w'. FlatMapIterator_moveNext_loop up inner this w = Some (Inr (?r, w'))" for w
    proof -
      from produces_Cons.hyps(2) obtain w1 where "next up s w = Some (Inr (x, s1, w1))" by blast
      then have "FlatMapIterator_moveNext_loop up inner this w = Some (Inr (?r, w1))"
        using produces_Cons.hyps(1) produces_Cons.prems(1) hn
        by (subst FlatMapIterator_moveNext_loop.simps) (simp add: upd TypedStorage_get_def)
      then show ?thesis ..
    qed
    moreover have "FlatMapIterator_holds up inner (fm_lambda this) g ?r (concat (map g (x # xs))) s'"
      using pi Cons produces_Cons.hyps(3) produces_Cons.prems(4)
      by (auto simp add: FlatMapIterator_holds_def)
    ultimately show ?thesis by blast
  qed
qed

lemma FlatMapIterator_moveNext_holds:
  assumes i: "fm_innerIt this = Some i" and hi: "fm_hasInnerIt this"
    and pi: "produces inner i zs t'"
    and p: "produces up (fm_streamIt this) xs s'"
    and g: "\<forall>x \<in> set xs. \<exists>t'. produces inner (iterator (fm_lambda this x)) (g x) t'"
  shows "\<exists>this'. (\<forall>w. \<exists>w'. FlatMapIterator_moveNext up inner this w = Some (Inr (this', w')))
      \<and> FlatMapIterator_holds up inner (fm_lambda this) g this' (zs @ concat (map g xs)) s'"
proof (cases zs)
  case Nil
  with pi have hn: "hasNext inner i = (False, i)" by (auto elim: produces_NilE)
  let ?t = "this\<lparr>fm_hasValue := False\<rparr>"
  have eq: "FlatMapIterator_moveNext up inner this w = FlatMapIterator_moveNext_loop up inner ?t w" for w
    using i hi hn
    apply (simp add: FlatMapIterator_moveNext_def TypedStorage_get_def)
    apply (cases this)
    apply simp
    done
  have "fm_streamIt ?t = fm_streamIt this" "\<not> fm_hasValue ?t"
    "fm_hasInnerIt ?t \<longrightarrow> fm_innerIt ?t \<noteq> None"
    "\<forall>x \<in> set xs. \<exists>t'. produces inner (iterator (fm_lambda ?t x)) (g x) t'"
    using i g by simp_all
  from FlatMapIterator_moveNext_loop_holds [OF p this] show ?thesis
    using Nil by (simp add: eq)
next
  case (Cons y zs')
  with pi have hn: "hasNext inner i = (True, i)" by (auto elim: produces_ConsE)
  let ?r = "this\<lparr>fm_hasValue := True\<rparr>"
  have "FlatMapIterator_moveNext up inner this w = Some (Inr (?r, w))" for w
    using i hi hn by (simp add: FlatMapIterator_moveNext_def TypedStorage_get_def)
  moreover have "FlatMapIterator_holds up inner (fm_lambda this) g ?r (zs @ concat (map g xs)) s'"
    using i hi pi p g Cons by (auto simp add: FlatMapIterator_holds_def)
  ultimately show ?thesis by blast
qed

lemma FlatMapIterator_holds_produces:
  "FlatMapIterator_holds up inner l g this ys s' \<Longrightarrow>
     \<exists>this'. produces (FlatMapIterator up inner) this ys this'"
proof (induction ys arbitrary: this)
  case Nil
  then have "hasNext (FlatMapIterator up inner) this = (False, this)"
    by (simp add: FlatMapIterator_holds_def FlatMapIterator_hasNext_def)
  from produces_Nil [OF this] show ?case ..
next
  case (Cons y ys)
  then obtain i zs t' xs where lam: "fm_lambda this = l"
    and hv: "fm_hasValue this" and hi: "fm_hasInnerIt this" and i: "fm_innerIt this = Some i"
    and pi: "produces inner i (y # zs) t'" and p: "produces up (fm_streamIt this) xs s'"
    and g: "\<forall>x \<in> set xs. \<exists>t'. produces inner (iterator (l x)) (g x) t'"
    and ys: "ys = zs @ concat (map g xs)"
    by (auto simp add: FlatMapIterator_holds_def)
  from pi obtain i1 where hn: "hasNext inner i = (True, i)"
    and nx: "\<forall>w. \<exists>w'. next inner i w = Some (Inr (y, i1, w'))"
    and pi1: "produces inner i1 zs t'"
    by (auto elim: produces_ConsE)
  let ?t = "this\<lparr>fm_innerIt := Some i1\<rparr>"
  have "fm_innerIt ?t = Some i1" "fm_hasInnerIt ?t" "produces up (fm_streamIt ?t) xs s'"
    "\<forall>x \<in> set xs. \<exists>t'. produces inner (iterator (fm_lambda ?t x)) (g x) t'"
    using hi p g lam by simp_all
  from FlatMapIterator_moveNext_holds [OF this(1,2) pi1 this(3,4)] obtain this1 where
    m: "\<forall>w. \<exists>w'. FlatMapIterator_moveNext up inner ?t w = Some (Inr (this1, w'))"
    and h: "FlatMapIterator_holds up inner l g this1 ys s'"
    using ys lam by auto
  from Cons.IH [OF h] obtain this' where rest: "produces (FlatMapIterator up inner) this1 ys this'" ..
  have hn': "hasNext (FlatMapIterator up inner) this = (True, this)"
    using hv by (simp add: FlatMapIterator_hasNext_def)
  have nx': "\<exists>w'. next (FlatMapIterator up inner) this w = Some (Inr (y, this1, w'))" for w
  proof -
    from nx obtain w1 where a: "next inner i w = Some (Inr (y, i1, w1))" by blast
    from m obtain w2 where "FlatMapIterator_moveNext up inner ?t w1 = Some (Inr (this1, w2))" by blast
    with a i show ?thesis
      by (simp add: FlatMapIterator_next_def TypedStorage_get_def)
  qed
  from produces_Cons [OF hn' nx' rest] show ?case ..
qed

lemma FlatMapIterator_init_produces:
  assumes p: "produces up s xs s'"
    and g: "\<forall>x \<in> set xs. \<exists>t'. produces inner (iterator (l x)) (g x) t'"
  shows "\<exists>this this'. (\<forall>w. \<exists>w'. FlatMapIterator_init up inner s l w = Some (Inr (this, w')))
           \<and> produces (FlatMapIterator up inner) this (concat (map g xs)) this'"
proof -
  let ?t = "\<lparr>fm_streamIt = s, fm_lambda = l, fm_innerIt = None, fm_hasValue = False, fm_hasInnerIt = False\<rparr>"
  have eq: "FlatMapIterator_init up inner s l w = FlatMapIterator_moveNext_loop up inner ?t w" for w
    by (simp add: FlatMapIterator_init_def FlatMapIterator_moveNext_def)
  have "fm_streamIt ?t = s" "\<not> fm_hasValue ?t" "fm_hasInnerIt ?t \<longrightarrow> fm_innerIt ?t \<noteq> None"
    "\<forall>x \<in> set xs. \<exists>t'. produces inner (iterator (fm_lambda ?t x)) (g x) t'"
    using g by simp_all
  from FlatMapIterator_moveNext_loop_holds [OF p this] obtain this where
    m: "\<forall>w. \<exists>w'. FlatMapIterator_moveNext_loop up inner ?t w = Some (Inr (this, w'))"
    and h: "FlatMapIterator_holds up inner l g this (concat (map g xs)) s'" by auto
  from FlatMapIterator_holds_produces [OF h] obtain this' where
    "produces (FlatMapIterator up inner) this (concat (map g xs)) this'" ..
  with m show ?thesis unfolding eq by blast
qed

subsection \<open>next on an exhausted iterator\<close>

text \<open>
  The claim C1 as the spec states it fails: only \<^verbatim>\<open>EmptyIterator::next\<close> throws. The
  \<^verbatim>\<open>next\<close> of Limit, of the range iterator and of Filter test nothing. With
  \<^verbatim>\<open>hasNext\<close> false, \<^verbatim>\<open>limit(0)\<close> over 1, 2, 3 returns 1; \<^verbatim>\<open>limit(2)\<close> drained by
  \<^verbatim>\<open>sink\<close> returns 3; the range over the first two of the three array elements,
  drained, returns the third; and the drained filter for even numbers over 1, 2, 3, 4
  returns its buffered 4 again.
\<close>

theorem next_when_exhausted_counterexample:
  "hasNext (LimitIterator StreamIterator) (iterator (fst (Stream_limit (Stream_of [1 :: nat, 2, 3]) 0)))
     = (False, \<lparr>li_it = \<lparr>array = [1, 2, 3], current = 0, end' = 3\<rparr>, li_size = 0, li_idx = 0\<rparr>)
   \<and> next (LimitIterator StreamIterator) (iterator (fst (Stream_limit (Stream_of [1 :: nat, 2, 3]) 0))) ()
     = Some (Inr (1, \<lparr>li_it = \<lparr>array = [1, 2, 3], current = 1, end' = 3\<rparr>, li_size = 0, li_idx = 1\<rparr>, ()))
   \<and> Stream_sink (LimitIterator StreamIterator) (fst (Stream_limit (Stream_of [1 :: nat, 2, 3]) 2)) ()
     = Some (Inr (Stream \<lparr>li_it = \<lparr>array = [1, 2, 3], current = 2, end' = 3\<rparr>, li_size = 2, li_idx = 2\<rparr>, ()))
   \<and> hasNext (LimitIterator StreamIterator)
        \<lparr>li_it = \<lparr>array = [1 :: nat, 2, 3], current = 2, end' = 3\<rparr>, li_size = 2, li_idx = 2\<rparr>
     = (False, \<lparr>li_it = \<lparr>array = [1, 2, 3], current = 2, end' = 3\<rparr>, li_size = 2, li_idx = 2\<rparr>)
   \<and> next (LimitIterator StreamIterator)
        \<lparr>li_it = \<lparr>array = [1 :: nat, 2, 3], current = 2, end' = 3\<rparr>, li_size = 2, li_idx = 2\<rparr> ()
     = Some (Inr (3, \<lparr>li_it = \<lparr>array = [1, 2, 3], current = 3, end' = 3\<rparr>, li_size = 2, li_idx = 3\<rparr>, ()))
   \<and> Stream_sink StreamIterator (Stream_of_pointers [1 :: nat, 2, 3] 0 2) ()
     = Some (Inr (Stream \<lparr>array = [1, 2, 3], current = 2, end' = 2\<rparr>, ()))
   \<and> hasNext StreamIterator \<lparr>array = [1 :: nat, 2, 3], current = 2, end' = 2\<rparr>
     = (False, \<lparr>array = [1, 2, 3], current = 2, end' = 2\<rparr>)
   \<and> next StreamIterator \<lparr>array = [1 :: nat, 2, 3], current = 2, end' = 2\<rparr> ()
     = Some (Inr (3, \<lparr>array = [1, 2, 3], current = 3, end' = 2\<rparr>, ()))
   \<and> Stream_filter StreamIterator (Stream_of [1 :: nat, 2, 3, 4]) even ()
     = Some (Inr (Stream \<lparr>fi_it = \<lparr>array = [1, 2, 3, 4], current = 2, end' = 4\<rparr>, fi_lambda = even,
                           fi_hasValue = True, fi_hasInit = True, fi_currentValue = Some 2\<rparr>,
                  Stream_of [1, 2, 3, 4], ()))
   \<and> Stream_sink (FilterIterator StreamIterator)
        (Stream \<lparr>fi_it = \<lparr>array = [1 :: nat, 2, 3, 4], current = 2, end' = 4\<rparr>, fi_lambda = even,
                  fi_hasValue = True, fi_hasInit = True, fi_currentValue = Some 2\<rparr>) ()
     = Some (Inr (Stream \<lparr>fi_it = \<lparr>array = [1, 2, 3, 4], current = 4, end' = 4\<rparr>, fi_lambda = even,
                           fi_hasValue = False, fi_hasInit = True, fi_currentValue = Some 4\<rparr>, ()))
   \<and> hasNext (FilterIterator StreamIterator)
        \<lparr>fi_it = \<lparr>array = [1 :: nat, 2, 3, 4], current = 4, end' = 4\<rparr>, fi_lambda = even,
          fi_hasValue = False, fi_hasInit = True, fi_currentValue = Some 4\<rparr>
     = (False, \<lparr>fi_it = \<lparr>array = [1, 2, 3, 4], current = 4, end' = 4\<rparr>, fi_lambda = even,
          fi_hasValue = False, fi_hasInit = True, fi_currentValue = Some 4\<rparr>)
   \<and> next (FilterIterator StreamIterator)
        \<lparr>fi_it = \<lparr>array = [1 :: nat, 2, 3, 4], current = 4, end' = 4\<rparr>, fi_lambda = even,
          fi_hasValue = False, fi_hasInit = True, fi_currentValue = Some 4\<rparr> ()
     = Some (Inr (4, \<lparr>fi_it = \<lparr>array = [1, 2, 3, 4], current = 4, end' = 4\<rparr>, fi_lambda = even,
          fi_hasValue = False, fi_hasInit = True, fi_currentValue = Some 4\<rparr>, ()))"
  by (simp add: eval_defs Stream_sink.simps FilterIterator_moveNext_loop.simps Stream_filter_def
      word_sless_alt)

text \<open>
  C1, amended. \<^verbatim>\<open>EmptyIterator::next\<close> always raises the exception, and the \<^verbatim>\<open>next\<close>
  of Map, Tap and Limit raises whatever the \<^verbatim>\<open>next\<close> of their upstream raises. After a
  terminal operation (\<^verbatim>\<open>sink\<close>, \<^verbatim>\<open>count\<close>, \<^verbatim>\<open>emplaceInto\<close>, \<^verbatim>\<open>reduce\<close>) has
  drained a stream that yields \<open>xs\<close>, \<^verbatim>\<open>hasNext\<close> on its iterator reports false.
\<close>

theorem next_raises_only_from_empty:
  assumes "produces up s xs s'"
  shows "next EmptyIterator ei w = Some (Inl Exception)
     \<and> (next u (mi_it mi) w = Some (Inl e) \<longrightarrow> next (MapIterator u) mi w = Some (Inl e))
     \<and> (next u (ti_it ti) w = Some (Inl e) \<longrightarrow> next (TapIterator u) ti w = Some (Inl e))
     \<and> (next u (li_it li) w = Some (Inl e) \<longrightarrow> next (LimitIterator u) li w = Some (Inl e))
     \<and> (\<exists>w'. Stream_sink up (Stream s) w = Some (Inr (Stream s', w')))
     \<and> (\<exists>w'. Stream_count up (Stream s) w = Some (Inr (of_nat (length xs), Stream s', w')))
     \<and> (\<exists>w'. Stream_emplaceInto up cont (Stream s) w = Some (Inr (cont @ xs, Stream s', w')))
     \<and> (\<exists>w'. Stream_reduce up f accu (Stream s) w = Some (Inr (fold f xs accu, Stream s', w')))
     \<and> hasNext up s' = (False, s')"
proof -
  have 1: "next EmptyIterator ei w = Some (Inl Exception)"
    by (simp add: EmptyIterator_next_def)
  have 2: "next u (mi_it mi) w = Some (Inl e) \<longrightarrow> next (MapIterator u) mi w = Some (Inl e)"
    by (simp add: MapIterator_next_def)
  have 3: "next u (ti_it ti) w = Some (Inl e) \<longrightarrow> next (TapIterator u) ti w = Some (Inl e)"
    by (simp add: TapIterator_next_def)
  have 4: "next u (li_it li) w = Some (Inl e) \<longrightarrow> next (LimitIterator u) li w = Some (Inl e)"
    by (simp add: LimitIterator_next_def)
  note 5 = Stream_sink_produces [OF assms, of w]
  note 6 = Stream_count_produces [OF assms, of w]
  note 7 = Stream_emplaceInto_produces [OF assms, of cont w]
  note 8 = Stream_reduce_produces [OF assms, of f accu w]
  note 9 = produces_final [OF assms]
  from 1 2 3 4 5 6 7 8 9 show ?thesis by blast
qed

theorem next_raises_only_from_empty_witness:
  "next (MapIterator (EmptyIterator :: (unit, nat, unit) Iterator)) \<lparr>mi_it = (), mi_lambda = Suc\<rparr> ()
        = Some (Inl Exception)
   \<and> next (LimitIterator (EmptyIterator :: (unit, nat, unit) Iterator))
        \<lparr>li_it = (), li_size = 1, li_idx = 0\<rparr> () = Some (Inl Exception)
   \<and> Stream_sink StreamIterator (Stream_of [1, 2, 3 :: nat]) ()
        = Some (Inr (Stream \<lparr>array = [1, 2, 3], current = 3, end' = 3\<rparr>, ()))
   \<and> Stream_count StreamIterator (Stream_of [1, 2, 3 :: nat]) ()
        = Some (Inr (3, Stream \<lparr>array = [1, 2, 3], current = 3, end' = 3\<rparr>, ()))
   \<and> Stream_emplaceInto StreamIterator [] (Stream_of [1, 2, 3 :: nat]) ()
        = Some (Inr ([1, 2, 3], Stream \<lparr>array = [1, 2, 3], current = 3, end' = 3\<rparr>, ()))
   \<and> hasNext (StreamIterator :: (nat StreamIterator_state, nat, unit) Iterator)
        \<lparr>array = [1, 2, 3], current = 3, end' = 3\<rparr>
        = (False, \<lparr>array = [1, 2, 3], current = 3, end' = 3\<rparr>)"
proof -
  have h: "produces (StreamIterator :: (nat StreamIterator_state, nat, unit) Iterator)
      (iterator (Stream_of [1, 2, 3])) [1, 2, 3]
      \<lparr>array = [1, 2, 3], current = length [1, 2, 3 :: nat], end' = length [1, 2, 3 :: nat]\<rparr>"
    by (rule Stream_of_produces)
  from next_raises_only_from_empty [OF h, where ei = "()" and w = "()" and e = Exception
      and u = "EmptyIterator :: (unit, nat, unit) Iterator"
      and mi = "\<lparr>mi_it = (), mi_lambda = Suc\<rparr>"
      and ti = "\<lparr>ti_it = (), ti_lambda = (\<lambda>(x :: nat) (w :: unit). (x, w))\<rparr>"
      and li = "\<lparr>li_it = (), li_size = 1, li_idx = 0\<rparr>" and cont = "[]"
      and f = "\<lambda>(x :: nat) (a :: nat). a" and accu = 0]
  show ?thesis by (simp add: Stream_of_def EmptyIterator_next_def StreamIterator_hasNext_def)
qed

subsection \<open>Filter\<close>

text \<open>
  C2. For every upstream that yields the finite sequence \<open>xs\<close> and every predicate \<open>f\<close>,
  \<^verbatim>\<open>filter(f)\<close> can be constructed and yields exactly \<open>filter f xs\<close>, the elements of
  \<open>xs\<close> that satisfy \<open>f\<close> in their original order (what \<^verbatim>\<open>emplaceInto\<close> collects);
  \<^verbatim>\<open>count()\<close> on the filtered stream and \<^verbatim>\<open>count(f)\<close> on the base stream return the
  same number; and every element yielded satisfies \<open>f\<close>.
\<close>

theorem filter_yields_matching:
  assumes "produces up s xs s'"
  shows "\<exists>fs. (\<forall>w. \<exists>w'. Stream_filter up (Stream s) f w = Some (Inr (fs, Stream s, w')))
      \<and> (\<forall>w. \<exists>r w'. Stream_emplaceInto (FilterIterator up) [] fs w = Some (Inr (filter f xs, r, w')))
      \<and> (\<forall>w. \<exists>r w'. Stream_count (FilterIterator up) fs w
                       = Some (Inr (of_nat (length (filter f xs)), r, w')))
      \<and> (\<forall>w. \<exists>r w'. Stream_count_f up f (Stream s) w
                       = Some (Inr (of_nat (length (filter f xs)), r, w')))
      \<and> (\<forall>y \<in> set (filter f xs). f y)"
proof -
  from FilterIterator_init_produces [OF assms, of f] obtain this this' where
    i: "\<forall>w. \<exists>w'. FilterIterator_init up s f w = Some (Inr (this, w'))"
    and p: "produces (FilterIterator up) this (filter f xs) this'" by blast
  have 1: "\<forall>w. \<exists>w'. Stream_filter up (Stream s) f w = Some (Inr (Stream this, Stream s, w'))"
  proof
    fix w
    from i obtain w' where "FilterIterator_init up s f w = Some (Inr (this, w'))" by blast
    then show "\<exists>w'. Stream_filter up (Stream s) f w = Some (Inr (Stream this, Stream s, w'))"
      by (simp add: Stream_filter_def)
  qed
  have 2: "\<forall>w. \<exists>r w'. Stream_emplaceInto (FilterIterator up) [] (Stream this) w
                        = Some (Inr (filter f xs, r, w'))"
    using Stream_emplaceInto_produces [OF p, of "[]"] by simp blast
  have 3: "\<forall>w. \<exists>r w'. Stream_count (FilterIterator up) (Stream this) w
                       = Some (Inr (of_nat (length (filter f xs)), r, w'))"
    using Stream_count_produces [OF p] by blast
  have 4: "\<forall>w. \<exists>r w'. Stream_count_f up f (Stream s) w
                       = Some (Inr (of_nat (length (filter f xs)), r, w'))"
    using Stream_count_f_produces [OF assms] by blast
  from 1 2 3 4 show ?thesis by (intro exI [of _ "Stream this"]) simp
qed

theorem filter_yields_matching_witness:
  "produces (StreamIterator :: (nat StreamIterator_state, nat, unit) Iterator)
      (iterator (Stream_of [1, 2, 3, 4, 5])) [1, 2, 3, 4, 5]
      \<lparr>array = [1, 2, 3, 4, 5], current = length [1, 2, 3, 4, 5 :: nat], end' = length [1, 2, 3, 4, 5 :: nat]\<rparr>
   \<and> (\<exists>fs. Stream_filter StreamIterator (Stream_of [1, 2, 3, 4, 5 :: nat]) (\<lambda>x. 2 < x) ()
              = Some (Inr (fs, Stream_of [1, 2, 3, 4, 5], ()))
          \<and> (\<exists>r. Stream_emplaceInto (FilterIterator StreamIterator) [] fs () = Some (Inr ([3, 4, 5], r, ())))
          \<and> (\<exists>r. Stream_count (FilterIterator StreamIterator) fs () = Some (Inr (3, r, ())))
          \<and> (\<exists>r. Stream_count_f StreamIterator (\<lambda>x. 2 < x) (Stream_of [1, 2, 3, 4, 5 :: nat]) ()
                    = Some (Inr (3, r, ()))))"
proof -
  have h: "produces (StreamIterator :: (nat StreamIterator_state, nat, unit) Iterator)
      (iterator (Stream_of [1, 2, 3, 4, 5])) [1, 2, 3, 4, 5]
      \<lparr>array = [1, 2, 3, 4, 5], current = length [1, 2, 3, 4, 5 :: nat], end' = length [1, 2, 3, 4, 5 :: nat]\<rparr>"
    by (rule Stream_of_produces)
  from filter_yields_matching [OF h, of "\<lambda>x. 2 < x"] h show ?thesis
    by simp
qed

subsection \<open>FlatMap\<close>

text \<open>
  C3. For every outer stage that yields the finite sequence \<open>xs\<close> and every transform \<open>l\<close>
  whose stream for \<open>x\<close> yields \<open>g x\<close>, \<^verbatim>\<open>flatMap(l)\<close> can be constructed and yields
  exactly \<open>concat (map g xs)\<close>: the inner streams' elements one stream after the other, an
  empty inner stream contributing nothing. Its \<^verbatim>\<open>hasNext\<close> right after construction is
  true exactly when that concatenation is not empty, so it is false when every inner
  stream is empty.
\<close>

theorem flatMap_yields_concatenation:
  assumes "produces up s xs s'"
    and "\<forall>x \<in> set xs. \<exists>t'. produces inner (iterator (l x)) (g x) t'"
  shows "\<exists>fs. (\<forall>w. \<exists>w'. Stream_flatMap up inner (Stream s) l w = Some (Inr (fs, Stream s, w')))
      \<and> (\<forall>w. \<exists>r w'. Stream_emplaceInto (FlatMapIterator up inner) [] fs w
                       = Some (Inr (concat (map g xs), r, w')))
      \<and> fst (hasNext (FlatMapIterator up inner) (iterator fs)) = (concat (map g xs) \<noteq> [])"
proof -
  from FlatMapIterator_init_produces [OF assms] obtain this this' where
    i: "\<forall>w. \<exists>w'. FlatMapIterator_init up inner s l w = Some (Inr (this, w'))"
    and p: "produces (FlatMapIterator up inner) this (concat (map g xs)) this'" by blast
  have 1: "\<forall>w. \<exists>w'. Stream_flatMap up inner (Stream s) l w = Some (Inr (Stream this, Stream s, w'))"
  proof
    fix w
    from i obtain w' where "FlatMapIterator_init up inner s l w = Some (Inr (this, w'))" by blast
    then show "\<exists>w'. Stream_flatMap up inner (Stream s) l w = Some (Inr (Stream this, Stream s, w'))"
      by (simp add: Stream_flatMap_def)
  qed
  have 2: "\<forall>w. \<exists>r w'. Stream_emplaceInto (FlatMapIterator up inner) [] (Stream this) w
                        = Some (Inr (concat (map g xs), r, w'))"
    using Stream_emplaceInto_produces [OF p, of "[]"] by simp blast
  have 3: "fst (hasNext (FlatMapIterator up inner) this) = (concat (map g xs) \<noteq> [])"
    by (rule produces_hasNext [OF p])
  from 1 2 3 show ?thesis by (intro exI [of _ "Stream this"]) simp
qed

theorem flatMap_yields_concatenation_witness:
  "\<exists>fs. Stream_flatMap StreamIterator StreamIterator (Stream_of [''ab'', ''cde'']) Stream_of ()
            = Some (Inr (fs, Stream_of [''ab'', ''cde''], ()))
      \<and> (\<exists>r. Stream_emplaceInto (FlatMapIterator StreamIterator StreamIterator) [] fs ()
                = Some (Inr (''abcde'', r, ())))
      \<and> fst (hasNext (FlatMapIterator StreamIterator StreamIterator) (iterator fs)) = True"
proof -
  have h: "produces (StreamIterator :: (string StreamIterator_state, string, unit) Iterator)
      (iterator (Stream_of [''ab'', ''cde''])) [''ab'', ''cde'']
      \<lparr>array = [''ab'', ''cde''], current = length [''ab'', ''cde''], end' = length [''ab'', ''cde'']\<rparr>"
    by (rule Stream_of_produces)
  have g: "\<forall>x \<in> set [''ab'', ''cde''].
      \<exists>t'. produces (StreamIterator :: (char StreamIterator_state, char, unit) Iterator)
             (iterator (Stream_of x)) ((\<lambda>x. x) x) t'"
    using Stream_of_produces by blast
  from flatMap_yields_concatenation [OF h g] show ?thesis
    by simp
qed

subsection \<open>Limit\<close>

text \<open>
  C4. For every upstream that yields \<open>xs\<close> (\<open>m\<close> elements) and every bound \<open>n\<close>,
  \<^verbatim>\<open>limit(n)\<close> yields \<open>take n xs\<close>: the first \<open>min m n\<close> elements in their original
  order (a negative \<open>n\<close> counts as 0, there being no negative number of elements).
  For every upstream \<open>u\<close> and every state of the stage, \<^verbatim>\<open>hasNext\<close> is
  \<^verbatim>\<open>idx < size\<close> and \<^verbatim>\<open>it.hasNext()\<close>, and once \<^verbatim>\<open>idx < size\<close> fails it returns
  false with the stage, upstream iterator included, exactly as it was, whatever the
  upstream's \<^verbatim>\<open>hasNext\<close> would do.
\<close>

theorem limit_yields_prefix:
  assumes "produces up s xs s'"
  shows "(\<forall>w. \<exists>r w'. Stream_emplaceInto (LimitIterator up) [] (fst (Stream_limit (Stream s) n)) w
                     = Some (Inr (take (nat (sint n)) xs, r, w')))
     \<and> length (take (nat (sint n)) xs) = min (length xs) (nat (sint n))
     \<and> (0 \<le> sint n \<longrightarrow> int (length (take (nat (sint n)) xs)) = min (int (length xs)) (sint n))
     \<and> fst (hasNext (LimitIterator u) st) = (li_idx st <s li_size st \<and> fst (hasNext u (li_it st)))
     \<and> (\<not> li_idx st <s li_size st \<longrightarrow> hasNext (LimitIterator u) st = (False, st))"
proof -
  from LimitIterator_produces [OF assms, of n 0] obtain st' where
    p: "produces (LimitIterator up) \<lparr>li_it = s, li_size = n, li_idx = 0\<rparr> (take (nat (sint n)) xs) st'"
    by auto
  have 1: "\<forall>w. \<exists>r w'. Stream_emplaceInto (LimitIterator up) [] (fst (Stream_limit (Stream s) n)) w
                     = Some (Inr (take (nat (sint n)) xs, r, w'))"
    using Stream_emplaceInto_produces [OF p, of "[]"]
    by (simp add: Stream_limit_def LimitIterator_init_def) blast
  have 2: "fst (hasNext (LimitIterator u) st) = (li_idx st <s li_size st \<and> fst (hasNext u (li_it st)))"
    by (simp add: LimitIterator_hasNext_def split: prod.splits)
  have 3: "\<not> li_idx st <s li_size st \<longrightarrow> hasNext (LimitIterator u) st = (False, st)"
    by (simp add: LimitIterator_hasNext_def)
  have 4: "0 \<le> sint n \<longrightarrow> int (length (take (nat (sint n)) xs)) = min (int (length xs)) (sint n)"
    by (simp add: min_def) linarith
  have 5: "length (take (nat (sint n)) xs) = min (length xs) (nat (sint n))"
    by simp
  from 1 2 3 4 5 show ?thesis by blast
qed

theorem limit_yields_prefix_witness:
  "(\<exists>r. Stream_emplaceInto (LimitIterator StreamIterator) []
           (fst (Stream_limit (Stream_of [1, 2, 3, 4, 5 :: nat]) 2)) () = Some (Inr ([1, 2], r, ())))
   \<and> (\<exists>r. Stream_emplaceInto (LimitIterator StreamIterator) []
           (fst (Stream_limit (Stream_of [1, 2 :: nat]) 5)) () = Some (Inr ([1, 2], r, ())))"
proof -
  have h: "produces (StreamIterator :: (nat StreamIterator_state, nat, unit) Iterator)
      (iterator (Stream_of xs)) xs \<lparr>array = xs, current = length xs, end' = length xs\<rparr>" for xs
    by (rule Stream_of_produces)
  from limit_yields_prefix [OF h [of "[1, 2, 3, 4, 5]"], of 2, THEN conjunct1, rule_format, of "()"]
    limit_yields_prefix [OF h [of "[1, 2]"], of 5, THEN conjunct1, rule_format, of "()"]
  show ?thesis by simp
qed

subsection \<open>Chaining\<close>

text \<open>
  The claim C5 as the spec states it fails: a chaining call copies the iterator. After
  \<^verbatim>\<open>map\<close> on the stream over the \<^verbatim>\<open>int\<close>s 1, 2, 3 the stream the call was made on
  is as before, and both streams can be drained: the new one yields 2, 3, 4 and the
  original 1, 2, 3.
\<close>

theorem chaining_moves_counterexample:
  "Stream_map (Stream_of [1 :: nat, 2, 3]) Suc
     = (Stream \<lparr>mi_it = \<lparr>array = [1, 2, 3], current = 0, end' = 3\<rparr>, mi_lambda = Suc\<rparr>,
        Stream \<lparr>array = [1, 2, 3], current = 0, end' = 3\<rparr>)
   \<and> Stream_emplaceInto (MapIterator StreamIterator) [] (fst (Stream_map (Stream_of [1 :: nat, 2, 3]) Suc)) ()
     = Some (Inr ([2, 3, 4],
          Stream \<lparr>mi_it = \<lparr>array = [1, 2, 3], current = 3, end' = 3\<rparr>, mi_lambda = Suc\<rparr>, ()))
   \<and> Stream_emplaceInto StreamIterator [] (snd (Stream_map (Stream_of [1 :: nat, 2, 3]) Suc)) ()
     = Some (Inr ([1, 2, 3], Stream \<lparr>array = [1, 2, 3], current = 3, end' = 3\<rparr>, ()))"
  by (simp add: eval_defs Stream_emplaceInto.simps)

text \<open>
  C5, amended. Every chaining call (\<^verbatim>\<open>map\<close>, \<^verbatim>\<open>tap\<close>, \<^verbatim>\<open>limit\<close>, \<^verbatim>\<open>filter\<close>,
  \<^verbatim>\<open>flatMap\<close>) passes a copy of the stream's iterator to the new stage. The iterator
  held by the stream the call was made on is left as it was, not moved from. The
  iterator of the new stream is the new stage built on that copy: for \<^verbatim>\<open>map\<close>,
  \<^verbatim>\<open>tap\<close> and \<^verbatim>\<open>limit\<close> the copy with the function or the bound beside it, for
  \<^verbatim>\<open>filter\<close> and \<^verbatim>\<open>flatMap\<close> what the stage's constructor, look-ahead included, makes
  of the copy. Over a stream that yields \<open>xs\<close> the constructors of \<^verbatim>\<open>filter\<close> and
  \<^verbatim>\<open>flatMap\<close> return, and the new stage is live: it yields \<open>filter lf xs\<close>, and the
  concatenation of the inner streams.
\<close>

theorem chaining_copies_iterator:
  assumes p: "produces up (iterator this) xs s'"
    and g: "\<forall>x \<in> set xs. \<exists>t'. produces inner (iterator (l x)) (g x) t'"
  shows "Stream_map that lm = (Stream \<lparr>mi_it = iterator that, mi_lambda = lm\<rparr>, that)
     \<and> Stream_tap that lt = (Stream \<lparr>ti_it = iterator that, ti_lambda = lt\<rparr>, that)
     \<and> Stream_limit that n = (Stream \<lparr>li_it = iterator that, li_size = n, li_idx = 0\<rparr>, that)
     \<and> (Stream_filter u that lf0 w0 = Some (Inr (fs0, that1, w1)) \<longrightarrow>
          that1 = that \<and> FilterIterator_init u (iterator that) lf0 w0 = Some (Inr (iterator fs0, w1)))
     \<and> (Stream_flatMap u v that l0 w0 = Some (Inr (fm0, that2, w2)) \<longrightarrow>
          that2 = that \<and> FlatMapIterator_init u v (iterator that) l0 w0 = Some (Inr (iterator fm0, w2)))
     \<and> (\<exists>fi fi'. (\<forall>w. \<exists>w'. FilterIterator_init up (iterator this) lf w = Some (Inr (fi, w'))
                        \<and> Stream_filter up this lf w = Some (Inr (Stream fi, this, w')))
                \<and> produces (FilterIterator up) fi (filter lf xs) fi')
     \<and> (\<exists>fm fm'. (\<forall>w. \<exists>w'. FlatMapIterator_init up inner (iterator this) l w = Some (Inr (fm, w'))
                        \<and> Stream_flatMap up inner this l w = Some (Inr (Stream fm, this, w')))
                \<and> produces (FlatMapIterator up inner) fm (concat (map g xs)) fm')"
proof -
  have 1: "Stream_map that lm = (Stream \<lparr>mi_it = iterator that, mi_lambda = lm\<rparr>, that)"
    by (simp add: Stream_map_def)
  have 2: "Stream_tap that lt = (Stream \<lparr>ti_it = iterator that, ti_lambda = lt\<rparr>, that)"
    by (simp add: Stream_tap_def)
  have 3: "Stream_limit that n = (Stream \<lparr>li_it = iterator that, li_size = n, li_idx = 0\<rparr>, that)"
    by (simp add: Stream_limit_def LimitIterator_init_def)
  have 4: "Stream_filter u that lf0 w0 = Some (Inr (fs0, that1, w1)) \<longrightarrow>
          that1 = that \<and> FilterIterator_init u (iterator that) lf0 w0 = Some (Inr (iterator fs0, w1))"
    by (auto simp add: Stream_filter_def split: option.splits sum.splits)
  have 5: "Stream_flatMap u v that l0 w0 = Some (Inr (fm0, that2, w2)) \<longrightarrow>
          that2 = that \<and> FlatMapIterator_init u v (iterator that) l0 w0 = Some (Inr (iterator fm0, w2))"
    by (auto simp add: Stream_flatMap_def split: option.splits sum.splits)
  from FilterIterator_init_produces [OF p, of lf] obtain fi fi' where
    fi: "\<forall>w. \<exists>w'. FilterIterator_init up (iterator this) lf w = Some (Inr (fi, w'))"
    and pf: "produces (FilterIterator up) fi (filter lf xs) fi'" by blast
  have "\<exists>w'. FilterIterator_init up (iterator this) lf w = Some (Inr (fi, w'))
           \<and> Stream_filter up this lf w = Some (Inr (Stream fi, this, w'))" for w
  proof -
    from fi obtain w' where "FilterIterator_init up (iterator this) lf w = Some (Inr (fi, w'))" by blast
    then show ?thesis by (simp add: Stream_filter_def)
  qed
  with pf have 6: "\<exists>fi fi'. (\<forall>w. \<exists>w'. FilterIterator_init up (iterator this) lf w = Some (Inr (fi, w'))
                        \<and> Stream_filter up this lf w = Some (Inr (Stream fi, this, w')))
                \<and> produces (FilterIterator up) fi (filter lf xs) fi'" by blast
  from FlatMapIterator_init_produces [OF p g] obtain fm fm' where
    fm: "\<forall>w. \<exists>w'. FlatMapIterator_init up inner (iterator this) l w = Some (Inr (fm, w'))"
    and pm: "produces (FlatMapIterator up inner) fm (concat (map g xs)) fm'" by blast
  have "\<exists>w'. FlatMapIterator_init up inner (iterator this) l w = Some (Inr (fm, w'))
           \<and> Stream_flatMap up inner this l w = Some (Inr (Stream fm, this, w'))" for w
  proof -
    from fm obtain w' where "FlatMapIterator_init up inner (iterator this) l w = Some (Inr (fm, w'))"
      by blast
    then show ?thesis by (simp add: Stream_flatMap_def)
  qed
  with pm have 7: "\<exists>fm fm'. (\<forall>w. \<exists>w'. FlatMapIterator_init up inner (iterator this) l w = Some (Inr (fm, w'))
                        \<and> Stream_flatMap up inner this l w = Some (Inr (Stream fm, this, w')))
                \<and> produces (FlatMapIterator up inner) fm (concat (map g xs)) fm'" by blast
  from 1 2 3 4 5 6 7 show ?thesis by blast
qed

theorem chaining_copies_iterator_witness:
  "Stream_limit (Stream_of [[1 :: nat], [2, 3]]) 1
     = (Stream \<lparr>li_it = \<lparr>array = [[1], [2, 3]], current = 0, end' = 2\<rparr>, li_size = 1, li_idx = 0\<rparr>,
        Stream_of [[1], [2, 3]])
   \<and> (\<exists>fi fi'. Stream_filter StreamIterator (Stream_of [[1 :: nat], [2, 3]]) (\<lambda>x. x \<noteq> []) ()
              = Some (Inr (Stream fi, Stream_of [[1], [2, 3]], ()))
          \<and> produces (FilterIterator (StreamIterator :: (nat list StreamIterator_state, nat list, unit) Iterator))
               fi [[1], [2, 3]] fi')
   \<and> (\<exists>fm fm'. Stream_flatMap StreamIterator StreamIterator (Stream_of [[1 :: nat], [2, 3]]) Stream_of ()
              = Some (Inr (Stream fm, Stream_of [[1], [2, 3]], ()))
          \<and> produces
               (FlatMapIterator (StreamIterator :: (nat list StreamIterator_state, nat list, unit) Iterator)
                  (StreamIterator :: (nat StreamIterator_state, nat, unit) Iterator))
               fm [1, 2, 3] fm')"
proof -
  have h: "produces (StreamIterator :: (nat list StreamIterator_state, nat list, unit) Iterator)
      (iterator (Stream_of [[1], [2, 3]])) [[1], [2, 3]]
      \<lparr>array = [[1], [2, 3]], current = length [[1 :: nat], [2, 3]], end' = length [[1 :: nat], [2, 3]]\<rparr>"
    by (rule Stream_of_produces)
  have g: "\<forall>x \<in> set [[1 :: nat], [2, 3]].
      \<exists>t'. produces (StreamIterator :: (nat StreamIterator_state, nat, unit) Iterator)
             (iterator (Stream_of x)) ((\<lambda>x. x) x) t'"
    using Stream_of_produces by blast
  note T = chaining_copies_iterator [OF h g, where that = "Stream_of [[1 :: nat], [2, 3]]" and n = 1
      and lf = "\<lambda>x. x \<noteq> []"]
  have a: "Stream_limit (Stream_of [[1 :: nat], [2, 3]]) 1
     = (Stream \<lparr>li_it = \<lparr>array = [[1], [2, 3]], current = 0, end' = 2\<rparr>, li_size = 1, li_idx = 0\<rparr>,
        Stream_of [[1], [2, 3]])"
    using T [THEN conjunct2, THEN conjunct2, THEN conjunct1] by (simp add: Stream_of_def)
  have b: "\<exists>fi fi'. Stream_filter StreamIterator (Stream_of [[1 :: nat], [2, 3]]) (\<lambda>x. x \<noteq> []) ()
              = Some (Inr (Stream fi, Stream_of [[1], [2, 3]], ()))
          \<and> produces (FilterIterator (StreamIterator :: (nat list StreamIterator_state, nat list, unit) Iterator))
               fi [[1], [2, 3]] fi'"
    using T [THEN conjunct2, THEN conjunct2, THEN conjunct2, THEN conjunct2, THEN conjunct2, THEN conjunct1]
    by simp blast
  have c: "\<exists>fm fm'. Stream_flatMap StreamIterator StreamIterator (Stream_of [[1 :: nat], [2, 3]]) Stream_of ()
              = Some (Inr (Stream fm, Stream_of [[1], [2, 3]], ()))
          \<and> produces
               (FlatMapIterator (StreamIterator :: (nat list StreamIterator_state, nat list, unit) Iterator)
                  (StreamIterator :: (nat StreamIterator_state, nat, unit) Iterator))
               fm [1, 2, 3] fm'"
    using T [THEN conjunct2, THEN conjunct2, THEN conjunct2, THEN conjunct2, THEN conjunct2, THEN conjunct2]
    by simp blast
  from a b c show ?thesis by blast
qed

subsection \<open>hasNext is a query\<close>

text \<open>
  C6. \<^verbatim>\<open>hasNext\<close> of every iterator variant is a pure query: it returns the object as
  it was, and asking again gives the same answer. For the sources, Filter and FlatMap
  this holds outright (the latter two only read their flag); Map, Tap and Limit hand the
  question to their upstream, and are pure whenever the upstream is, so every chain is.
\<close>

theorem hasNext_is_pure:
  "hasNext_pure StreamIterator si
   \<and> hasNext_pure EmptyIterator ei
   \<and> hasNext_pure (FilterIterator up) fi
   \<and> hasNext_pure (FlatMapIterator up inner) fm
   \<and> (hasNext_pure up (mi_it mi) \<longrightarrow> hasNext_pure (MapIterator up) mi)
   \<and> (hasNext_pure up (ti_it ti) \<longrightarrow> hasNext_pure (TapIterator up) ti)
   \<and> (hasNext_pure up (li_it li) \<longrightarrow> hasNext_pure (LimitIterator up) li)"
proof -
  have 1: "hasNext_pure StreamIterator si"
    by (simp add: hasNext_pure_def StreamIterator_hasNext_def)
  have 2: "hasNext_pure EmptyIterator ei"
    by (simp add: hasNext_pure_def EmptyIterator_hasNext_def)
  have 3: "hasNext_pure (FilterIterator up) fi"
    by (simp add: hasNext_pure_def FilterIterator_hasNext_def)
  have 4: "hasNext_pure (FlatMapIterator up inner) fm"
    by (simp add: hasNext_pure_def FlatMapIterator_hasNext_def)
  have 5: "hasNext_pure up (mi_it mi) \<longrightarrow> hasNext_pure (MapIterator up) mi"
    by (simp add: hasNext_pure_def MapIterator_hasNext_def split: prod.splits)
  have 6: "hasNext_pure up (ti_it ti) \<longrightarrow> hasNext_pure (TapIterator up) ti"
    by (simp add: hasNext_pure_def TapIterator_hasNext_def split: prod.splits)
  have 7: "hasNext_pure up (li_it li) \<longrightarrow> hasNext_pure (LimitIterator up) li"
    by (simp add: hasNext_pure_def LimitIterator_hasNext_def split: prod.splits)
  from 1 2 3 4 5 6 7 show ?thesis by blast
qed

theorem hasNext_is_pure_witness:
  "hasNext_pure (LimitIterator (MapIterator (StreamIterator :: (nat StreamIterator_state, nat, unit) Iterator)))
     \<lparr>li_it = \<lparr>mi_it = \<lparr>array = [1, 2, 3 :: nat], current = 0, end' = 3\<rparr>, mi_lambda = Suc\<rparr>,
       li_size = 2, li_idx = 0\<rparr>"
proof -
  let ?si = "\<lparr>array = [1, 2, 3 :: nat], current = 0, end' = 3\<rparr>"
  let ?mi = "\<lparr>mi_it = ?si, mi_lambda = Suc\<rparr>"
  let ?li = "\<lparr>li_it = ?mi, li_size = 2, li_idx = 0\<rparr>"
  have a: "hasNext_pure (StreamIterator :: (nat StreamIterator_state, nat, unit) Iterator) (mi_it ?mi)"
    by (rule hasNext_is_pure [THEN conjunct1])
  have b: "hasNext_pure (MapIterator (StreamIterator :: (nat StreamIterator_state, nat, unit) Iterator))
             (li_it ?li)"
    using hasNext_is_pure [where up = "StreamIterator :: (nat StreamIterator_state, nat, unit) Iterator"
        and mi = "?mi", THEN conjunct2, THEN conjunct2, THEN conjunct2, THEN conjunct2, THEN conjunct1]
      a by simp
  show ?thesis
    using hasNext_is_pure [where up = "MapIterator (StreamIterator :: (nat StreamIterator_state, nat, unit) Iterator)"
        and li = "?li", THEN conjunct2, THEN conjunct2, THEN conjunct2, THEN conjunct2, THEN conjunct2,
        THEN conjunct2]
      b by simp
qed

subsection \<open>Reduce\<close>

text \<open>
  C7. \<^verbatim>\<open>reduce(f, initial)\<close> is a left fold in pull order: over an upstream that yields
  \<open>xs\<close> it returns \<open>fold f xs initial\<close>, the accumulator updated as
  \<open>accu = f element accu\<close> for each element in turn, and leaves the stream exhausted.
  The witness is the spec's example: \<open>acc + x\<close> from 0 over 1, 2, 3 is 6.
\<close>

theorem reduce_left_fold:
  assumes "produces up s xs s'"
  shows "\<exists>w'. Stream_reduce up f initial (Stream s) w = Some (Inr (fold f xs initial, Stream s', w'))"
  using assms by (rule Stream_reduce_produces)

theorem reduce_left_fold_witness:
  "Stream_reduce StreamIterator (\<lambda>x acc. acc + x) (0 :: int) (Stream_of [1, 2, 3]) ()
     = Some (Inr (6, Stream \<lparr>array = [1, 2, 3], current = 3, end' = 3\<rparr>, ()))"
proof -
  have h: "produces (StreamIterator :: (int StreamIterator_state, int, unit) Iterator)
      (iterator (Stream_of [1, 2, 3])) [1, 2, 3]
      \<lparr>array = [1, 2, 3], current = length [1, 2, 3 :: int], end' = length [1, 2, 3 :: int]\<rparr>"
    by (rule Stream_of_produces)
  from reduce_left_fold [OF h, of "\<lambda>x acc. acc + x" 0 "()"] show ?thesis
    by (simp add: Stream_of_def)
qed

subsection \<open>Tap\<close>

text \<open>
  The claim C8 as the spec states it fails for a function that takes the element by
  reference and assigns to it: \<^verbatim>\<open>next\<close> returns the element as the function left it.
  Over 1, 2, 3, the tap with a function that multiplies its argument by 10 in place
  yields 10, 20, 30.
\<close>

theorem tap_changes_element_counterexample:
  "Stream_emplaceInto StreamIterator [] (Stream_of [1, 2, 3 :: nat]) ()
     = Some (Inr ([1, 2, 3], Stream \<lparr>array = [1, 2, 3], current = 3, end' = 3\<rparr>, ()))
   \<and> Stream_emplaceInto (TapIterator StreamIterator) []
        (fst (Stream_tap (Stream_of [1, 2, 3 :: nat]) (\<lambda>x (w :: unit). (x * 10, w)))) ()
     = Some (Inr ([10, 20, 30],
          Stream \<lparr>ti_it = \<lparr>array = [1, 2, 3], current = 3, end' = 3\<rparr>,
                   ti_lambda = (\<lambda>x w. (x * 10, w))\<rparr>, ()))"
  by (simp add: eval_defs Stream_emplaceInto.simps)

text \<open>
  C8, amended. For every upstream and every function \<open>l\<close> given to \<^verbatim>\<open>tap\<close> that leaves
  its argument as it was (it takes the element by value or by reference to const):
  whenever the upstream's \<^verbatim>\<open>next\<close> returns \<open>x\<close>, the tap stage's \<^verbatim>\<open>next\<close> returns the
  same \<open>x\<close>, with the upstream advanced in the same way and the outside state as \<open>l\<close>
  leaves it after the upstream's own effect; so over an upstream that yields \<open>xs\<close> the
  tap stage yields \<open>xs\<close>, element for element. For any function \<open>l0\<close>, \<^verbatim>\<open>next\<close> pulls
  one upstream element, calls \<open>l0\<close> on it once and returns the element as the call left
  it.
\<close>

theorem tap_passes_through:
  assumes "produces up s xs s'" and "\<forall>x w. fst (l x w) = x"
  shows "produces (TapIterator up) (iterator (fst (Stream_tap (Stream s) l))) xs \<lparr>ti_it = s', ti_lambda = l\<rparr>
     \<and> (\<forall>w. \<exists>r w'. Stream_emplaceInto (TapIterator up) [] (fst (Stream_tap (Stream s) l)) w
                      = Some (Inr (xs, r, w')))
     \<and> (\<forall>it w x it' w'. next up it w = Some (Inr (x, it', w')) \<longrightarrow>
           next (TapIterator up) \<lparr>ti_it = it, ti_lambda = l\<rparr> w
             = Some (Inr (x, \<lparr>ti_it = it', ti_lambda = l\<rparr>, snd (l x w'))))
     \<and> (\<forall>it w x it' w'. next u it w = Some (Inr (x, it', w')) \<longrightarrow>
           next (TapIterator u) \<lparr>ti_it = it, ti_lambda = l0\<rparr> w
             = Some (Inr (fst (l0 x w'), \<lparr>ti_it = it', ti_lambda = l0\<rparr>, snd (l0 x w'))))"
proof -
  have p: "produces (TapIterator up) \<lparr>ti_it = s, ti_lambda = l\<rparr> xs \<lparr>ti_it = s', ti_lambda = l\<rparr>"
    using assms by (rule TapIterator_produces)
  have 2: "\<forall>w. \<exists>r w'. Stream_emplaceInto (TapIterator up) [] (Stream \<lparr>ti_it = s, ti_lambda = l\<rparr>) w
                      = Some (Inr (xs, r, w'))"
    using Stream_emplaceInto_produces [OF p, of "[]"] by simp blast
  have 4: "\<forall>it w x it' w'. next u it w = Some (Inr (x, it', w')) \<longrightarrow>
           next (TapIterator u) \<lparr>ti_it = it, ti_lambda = l0\<rparr> w
             = Some (Inr (fst (l0 x w'), \<lparr>ti_it = it', ti_lambda = l0\<rparr>, snd (l0 x w')))"
    by (simp add: TapIterator_next_def split: prod.splits)
  have 3: "\<forall>it w x it' w'. next up it w = Some (Inr (x, it', w')) \<longrightarrow>
           next (TapIterator up) \<lparr>ti_it = it, ti_lambda = l\<rparr> w
             = Some (Inr (x, \<lparr>ti_it = it', ti_lambda = l\<rparr>, snd (l x w')))"
    using assms(2) by (simp add: TapIterator_next_def split: prod.splits) (metis fst_conv)
  from p 2 3 4 show ?thesis
    by (simp add: Stream_tap_def)
qed

theorem tap_passes_through_witness:
  "produces (TapIterator StreamIterator)
      (iterator (fst (Stream_tap (Stream_of [1, 2, 3 :: nat]) (\<lambda>x w. (x, w @ [x]))))) [1, 2, 3]
      \<lparr>ti_it = \<lparr>array = [1, 2, 3], current = length [1, 2, 3 :: nat], end' = length [1, 2, 3 :: nat]\<rparr>,
        ti_lambda = (\<lambda>x w. (x, w @ [x]))\<rparr>
   \<and> Stream_emplaceInto (TapIterator StreamIterator) []
        (fst (Stream_tap (Stream_of [1, 2, 3 :: nat]) (\<lambda>x w. (x, w @ [x])))) []
      = Some (Inr ([1, 2, 3],
           Stream \<lparr>ti_it = \<lparr>array = [1, 2, 3], current = 3, end' = 3\<rparr>,
                    ti_lambda = (\<lambda>x w. (x, w @ [x]))\<rparr>,
           [1, 2, 3]))"
proof -
  have h: "produces (StreamIterator :: (nat StreamIterator_state, nat, nat list) Iterator)
      (iterator (Stream_of [1, 2, 3])) [1, 2, 3]
      \<lparr>array = [1, 2, 3], current = length [1, 2, 3 :: nat], end' = length [1, 2, 3 :: nat]\<rparr>"
    by (rule Stream_of_produces)
  have l: "\<forall>(x :: nat) (w :: nat list). fst (x, w @ [x]) = x"
    by simp
  have e: "Stream_emplaceInto (TapIterator StreamIterator) []
        (fst (Stream_tap (Stream_of [1, 2, 3 :: nat]) (\<lambda>x w. (x, w @ [x])))) []
      = Some (Inr ([1, 2, 3],
           Stream \<lparr>ti_it = \<lparr>array = [1, 2, 3], current = 3, end' = 3\<rparr>,
                    ti_lambda = (\<lambda>x w. (x, w @ [x]))\<rparr>,
           [1, 2, 3]))"
    by (simp add: eval_defs Stream_emplaceInto.simps)
  from tap_passes_through [OF h l, THEN conjunct1] e show ?thesis
    by (simp add: Stream_of_def)
qed

subsection \<open>The estimate of FlatMap\<close>

text \<open>
  C9. \<^verbatim>\<open>FlatMapIterator::estimateRemaining\<close> returns the outer iterator's estimate and
  does not depend on the inner iterator slot. For the stream with the one element that
  designates the container \<open>[1, 2]\<close>, flat-mapped with \<^verbatim>\<open>of\<close>, construction pulls the
  outer element, so the outer iterator is exhausted while the inner one still has both
  elements: \<^verbatim>\<open>estimateRemaining()\<close> is 0 and \<^verbatim>\<open>hasNext()\<close> is true.
\<close>

theorem flatMap_estimate_ignores_inner:
  "fst (estimateRemaining (FlatMapIterator up inner) this) = fst (estimateRemaining up (fm_streamIt this))
   \<and> fst (estimateRemaining (FlatMapIterator up inner) (this\<lparr>fm_innerIt := i\<rparr>))
       = fst (estimateRemaining (FlatMapIterator up inner) this)
   \<and> FlatMapIterator_init StreamIterator StreamIterator (iterator (Stream_of [[1 :: nat, 2]])) Stream_of ()
       = Some (Inr (\<lparr>fm_streamIt = \<lparr>array = [[1, 2]], current = 1, end' = 1\<rparr>, fm_lambda = Stream_of,
                     fm_innerIt = Some \<lparr>array = [1, 2], current = 0, end' = 2\<rparr>,
                     fm_hasValue = True, fm_hasInnerIt = True\<rparr>, ()))
   \<and> estimateRemaining (FlatMapIterator StreamIterator StreamIterator)
        \<lparr>fm_streamIt = \<lparr>array = [[1 :: nat, 2]], current = 1, end' = 1\<rparr>, fm_lambda = Stream_of,
          fm_innerIt = Some \<lparr>array = [1, 2], current = 0, end' = 2\<rparr>,
          fm_hasValue = True, fm_hasInnerIt = True\<rparr>
       = (0, \<lparr>fm_streamIt = \<lparr>array = [[1, 2]], current = 1, end' = 1\<rparr>, fm_lambda = Stream_of,
               fm_innerIt = Some \<lparr>array = [1, 2], current = 0, end' = 2\<rparr>,
               fm_hasValue = True, fm_hasInnerIt = True\<rparr>)
   \<and> hasNext (FlatMapIterator StreamIterator StreamIterator)
        \<lparr>fm_streamIt = \<lparr>array = [[1 :: nat, 2]], current = 1, end' = 1\<rparr>, fm_lambda = Stream_of,
          fm_innerIt = Some \<lparr>array = [1, 2], current = 0, end' = 2\<rparr>,
          fm_hasValue = True, fm_hasInnerIt = True\<rparr>
       = (True, \<lparr>fm_streamIt = \<lparr>array = [[1, 2]], current = 1, end' = 1\<rparr>, fm_lambda = Stream_of,
               fm_innerIt = Some \<lparr>array = [1, 2], current = 0, end' = 2\<rparr>,
               fm_hasValue = True, fm_hasInnerIt = True\<rparr>)"
proof -
  have 1: "fst (estimateRemaining (FlatMapIterator up inner) this)
             = fst (estimateRemaining up (fm_streamIt this))"
    by (simp add: FlatMapIterator_estimateRemaining_def split: prod.splits)
  have 2: "fst (estimateRemaining (FlatMapIterator up inner) (this\<lparr>fm_innerIt := i\<rparr>))
       = fst (estimateRemaining (FlatMapIterator up inner) this)"
    by (simp add: FlatMapIterator_estimateRemaining_def split: prod.splits)
  have 3: "FlatMapIterator_init StreamIterator StreamIterator (iterator (Stream_of [[1 :: nat, 2]])) Stream_of ()
       = Some (Inr (\<lparr>fm_streamIt = \<lparr>array = [[1, 2]], current = 1, end' = 1\<rparr>, fm_lambda = Stream_of,
                     fm_innerIt = Some \<lparr>array = [1, 2], current = 0, end' = 2\<rparr>,
                     fm_hasValue = True, fm_hasInnerIt = True\<rparr>, ()))"
    by (simp add: eval_defs FlatMapIterator_moveNext_loop.simps)
  show ?thesis
    unfolding 3
    by (intro conjI 1 2) (simp_all add: eval_defs)
qed

subsection \<open>Limit with a bound that is not positive\<close>

text \<open>
  C10. For every upstream stage and every bound \<open>n \<le> 0\<close>, negative ones included,
  \<^verbatim>\<open>limit(n)\<close> is an empty stream: \<^verbatim>\<open>hasNext\<close> is false from construction, and a
  terminal operation (\<^verbatim>\<open>sink\<close>, \<^verbatim>\<open>emplaceInto\<close>, \<^verbatim>\<open>count\<close>) returns at once, with
  nothing collected and with the upstream iterator and the outside state as they were at
  construction: no element is pulled from the upstream.
\<close>

theorem limit_nonpositive_empty:
  assumes "sint n \<le> 0"
  shows "hasNext (LimitIterator up) (iterator (fst (Stream_limit this n)))
           = (False, iterator (fst (Stream_limit this n)))
     \<and> Stream_sink (LimitIterator up) (fst (Stream_limit this n)) w
           = Some (Inr (fst (Stream_limit this n), w))
     \<and> Stream_emplaceInto (LimitIterator up) cont (fst (Stream_limit this n)) w
           = Some (Inr (cont, fst (Stream_limit this n), w))
     \<and> Stream_count (LimitIterator up) (fst (Stream_limit this n)) w
           = Some (Inr (0, fst (Stream_limit this n), w))
     \<and> li_it (iterator (fst (Stream_limit this n))) = iterator this"
  using LimitIterator_hasNext_nonpositive [OF assms, of up "iterator this"]
  by (simp add: Stream_limit_def Stream_sink.simps Stream_emplaceInto.simps
      Stream_count_def Stream_count_loop.simps LimitIterator_init_def)

theorem limit_nonpositive_empty_witness:
  "sint (- 1 :: cint) \<le> 0
     \<and> Stream_emplaceInto (LimitIterator StreamIterator) []
          (fst (Stream_limit (Stream_of [1 :: nat, 2, 3]) (- 1))) ()
        = Some (Inr ([],
            Stream \<lparr>li_it = \<lparr>array = [1, 2, 3], current = 0, end' = 3\<rparr>, li_size = - 1, li_idx = 0\<rparr>,
            ()))"
  using limit_nonpositive_empty [of "- 1 :: cint" StreamIterator "Stream_of [1 :: nat, 2, 3]" "()" "[]"]
  by (simp add: Stream_limit_def Stream_of_def LimitIterator_init_def)

end
